theory Spec2Isabelle
  imports Complex_Main "HOL-Library.Char_ord" "HOL-Library.List_Lexorder" "HOL-Library.Log_Nat"
begin

section \<open>Python values\<close>

text \<open>
  A Python \<open>float\<close> is an IEEE double. The model keeps the three special values apart
  from the finite ones, which are real numbers. The special values matter:
  \<open>float('nan')\<close> and \<open>float('inf')\<close> succeed in Python, and every comparison with a NaN
  is false. The sign of a zero is left out: \<open>-0.0 == 0.0\<close>, and neither \<open>abs\<close> nor \<open><=\<close>
  tells the two apart.
\<close>

datatype pyfloat = Fin real | PInf | NInf | NaN

text \<open>
  The result of an arithmetic operation on doubles is the exact result rounded to the
  nearest double, ties to the even mantissa (the default rounding mode, which Python
  never changes). \<open>floor_log2 y\<close> is the exponent \<open>e\<close> with \<open>2^e \<le> y < 2^(e+1)\<close> for a
  positive \<open>y\<close>. A double has a mantissa of 53 bits, so the doubles between \<open>2^e\<close> and
  \<open>2^(e+1)\<close> are the multiples of \<open>2^(e-52)\<close>; below \<open>2^(-1022)\<close> they are the subnormal
  numbers, the multiples of \<open>2^(-1074)\<close>. A result that rounds to \<open>2^1024\<close> or more
  overflows to an infinity.
\<close>

definition floor_log2 :: "real \<Rightarrow> int" where
  "floor_log2 y = (if 1 \<le> y then bitlen \<lfloor>y\<rfloor> - 1 else - bitlen (\<lceil>1 / y\<rceil> - 1))"

definition pow2 :: "int \<Rightarrow> real" where
  "pow2 k = (if 0 \<le> k then 2 ^ nat k else 1 / 2 ^ nat (- k))"

definition round_half_even :: "real \<Rightarrow> int" where
  "round_half_even q = (let n = \<lfloor>q\<rfloor>; r = q - of_int n
     in if r < 1 / 2 then n else if 1 / 2 < r then n + 1 else if even n then n else n + 1)"

text \<open>\<open>round_at e x\<close> rounds \<open>x\<close>, whose magnitude has the exponent \<open>e\<close>.\<close>

definition round_at :: "int \<Rightarrow> real \<Rightarrow> pyfloat" where
  "round_at e x = (let ulp = pow2 (max e (- 1022) - 52);
        m = of_int (round_half_even (\<bar>x\<bar> / ulp)) * ulp
    in if pow2 1024 \<le> m then (if 0 < x then PInf else NInf)
       else Fin (if 0 < x then m else - m))"

definition round_double :: "real \<Rightarrow> pyfloat" where
  "round_double x = (if x = 0 then Fin 0 else round_at (floor_log2 \<bar>x\<bar>) x)"

text \<open>
  Subtraction and multiplication of floats: the finite case rounds the exact result,
  the other cases follow IEEE 754 (\<open>inf - inf\<close> and \<open>0 * inf\<close> are NaNs).
\<close>

fun f_sub :: "pyfloat \<Rightarrow> pyfloat \<Rightarrow> pyfloat" where
  "f_sub NaN _ = NaN"
| "f_sub _ NaN = NaN"
| "f_sub (Fin a) (Fin b) = round_double (a - b)"
| "f_sub (Fin a) PInf = NInf"
| "f_sub (Fin a) NInf = PInf"
| "f_sub PInf PInf = NaN"
| "f_sub PInf _ = PInf"
| "f_sub NInf NInf = NaN"
| "f_sub NInf _ = NInf"

fun f_mul_inf :: "bool \<Rightarrow> pyfloat \<Rightarrow> pyfloat" where
  "f_mul_inf pos NaN = NaN"
| "f_mul_inf pos (Fin b) =
     (if b = 0 then NaN else if (0 < b) = pos then PInf else NInf)"
| "f_mul_inf pos PInf = (if pos then PInf else NInf)"
| "f_mul_inf pos NInf = (if pos then NInf else PInf)"

fun f_mul :: "pyfloat \<Rightarrow> pyfloat \<Rightarrow> pyfloat" where
  "f_mul NaN _ = NaN"
| "f_mul (Fin a) (Fin b) = round_double (a * b)"
| "f_mul (Fin a) NaN = NaN"
| "f_mul (Fin a) PInf = f_mul_inf True (Fin a)"
| "f_mul (Fin a) NInf = f_mul_inf False (Fin a)"
| "f_mul PInf y = f_mul_inf True y"
| "f_mul NInf y = f_mul_inf False y"

fun f_abs :: "pyfloat \<Rightarrow> pyfloat" where
  "f_abs (Fin a) = Fin \<bar>a\<bar>"
| "f_abs PInf = PInf"
| "f_abs NInf = PInf"
| "f_abs NaN = NaN"

text \<open>The unary minus, as in the literal \<open>-0.10\<close>.\<close>

fun f_neg :: "pyfloat \<Rightarrow> pyfloat" where
  "f_neg (Fin a) = Fin (- a)"
| "f_neg PInf = NInf"
| "f_neg NInf = PInf"
| "f_neg NaN = NaN"

text \<open>
  The default \<open>sig_diff_frac=0.10\<close> of the constructor: the literal denotes the double
  nearest to one tenth.
\<close>

definition default_sig_diff_frac :: pyfloat where
  "default_sig_diff_frac = round_double (1 / 10)"

fun f_le :: "pyfloat \<Rightarrow> pyfloat \<Rightarrow> bool" where
  "f_le NaN _ = False"
| "f_le _ NaN = False"
| "f_le (Fin a) (Fin b) = (a \<le> b)"
| "f_le NInf _ = True"
| "f_le _ PInf = True"
| "f_le PInf _ = False"
| "f_le (Fin a) NInf = False"

text \<open>
  The objects \<open>json.load\<close> of Python 2 builds: \<open>None\<close>, \<open>bool\<close>, \<open>int\<close>
  (a machine integer), \<open>long\<close> (an integer literal beyond \<open>sys.maxint\<close>), \<open>float\<close>,
  \<open>unicode\<close>, \<open>list\<close> and \<open>dict\<close>. A dict is an association list read as the
  finite map it denotes: the first binding of a key counts.
\<close>

datatype pyval =
    PNone
  | PBool bool
  | PInt int
  | PLong int
  | PFloat pyfloat
  | PStr string
  | PList "pyval list"
  | PDict "(string \<times> pyval) list"

text \<open>
  The exceptions of the model: \<open>KeyError\<close> (a missing entry of a dict), \<open>AttributeError\<close>
  and \<open>TypeError\<close>, and \<open>LoadError\<close> for whatever \<open>open\<close> and \<open>json.load\<close> raise.
\<close>

datatype py_error = KeyError | AttributeError | TypeError | LoadError

section \<open>json\_compare.py\<close>

text \<open>
  \<open>type_dict\<close> has entries for \<open>StringType\<close>, \<open>UnicodeType\<close>, \<open>IntType\<close>, \<open>ListType\<close>,
  \<open>BooleanType\<close>, \<open>FloatType\<close>, \<open>DictionaryType\<close> and \<open>NoneType\<close> (mapped to \<open>None\<close>).
  It has none for \<open>LongType\<close>, so subscripting it with the type of a \<open>long\<close> raises
  \<open>KeyError\<close>. A type name is a string or \<open>None\<close>.
\<close>

fun type_dict :: "pyval \<Rightarrow> py_error + string option" where
  "type_dict (PStr s) = Inr (Some ''string'')"
| "type_dict (PInt i) = Inr (Some ''integer'')"
| "type_dict (PList xs) = Inr (Some ''array'')"
| "type_dict (PBool b) = Inr (Some ''boolean'')"
| "type_dict (PFloat x) = Inr (Some ''number'')"
| "type_dict (PDict d) = Inr (Some ''object'')"
| "type_dict PNone = Inr None"
| "type_dict (PLong i) = Inl KeyError"

definition container_dict :: "string \<rightharpoonup> string" where
  "container_dict = [''object'' \<mapsto> ''{...}'', ''array'' \<mapsto> ''[...]'']"

text \<open>
  \<open>float(x)\<close> for a string \<open>x\<close> is the interpreter's parser; it is the parameter \<open>fl\<close>
  (\<open>None\<close> where \<open>float\<close> raises, which the bare \<open>except\<close> swallows). For an \<open>int\<close> it is
  the nearest double: an integer beyond \<open>2^53\<close> is rounded. An \<open>int\<close> of Python 2 is a
  machine integer, far inside the range of the doubles; where the unbounded integer of
  the model is beyond that range \<open>float\<close> raises \<open>OverflowError\<close>, swallowed like every
  other exception. The result \<open>False\<close> of \<open>test_string_to_float\<close> is \<open>None\<close> here; the
  source tests it with \<open>is not False\<close>, so the float \<open>0.0\<close> counts as a number.
\<close>

fun float_builtin :: "(string \<Rightarrow> pyfloat option) \<Rightarrow> pyval \<Rightarrow> pyfloat option" where
  "float_builtin fl (PStr s) = fl s"
| "float_builtin fl (PInt i) =
     (case round_double (of_int i) of Fin x \<Rightarrow> Some (Fin x) | _ \<Rightarrow> None)"
| "float_builtin fl (PFloat x) = Some x"
| "float_builtin fl _ = None"

definition test_string_to_float ::
  "(string \<Rightarrow> pyfloat option) \<Rightarrow> pyval \<Rightarrow> py_error + pyfloat option" where
  "test_string_to_float fl input_string =
     (case type_dict input_string of
        Inl e \<Rightarrow> Inl e
      | Inr t \<Rightarrow>
          if t \<in> {Some ''string'', Some ''number'', Some ''integer''}
          then Inr (float_builtin fl input_string)
          else Inr None)"

text \<open>\<open>diff_val\<close> is a float, or one of the booleans \<open>True\<close> and \<open>False\<close>.\<close>

datatype diff_val = DFloat pyfloat | DBool bool

definition test_value_diff ::
  "(string \<Rightarrow> pyfloat option) \<Rightarrow> pyval \<Rightarrow> pyval \<Rightarrow> py_error + (bool \<times> diff_val)" where
  "test_value_diff fl old_val new_val =
     (case type_dict old_val of Inl e \<Rightarrow> Inl e | Inr old_val_type \<Rightarrow>
     (case type_dict new_val of Inl e \<Rightarrow> Inl e | Inr new_val_type \<Rightarrow>
     (case test_string_to_float fl old_val of Inl e \<Rightarrow> Inl e | Inr old_val_float \<Rightarrow>
     (case test_string_to_float fl new_val of Inl e \<Rightarrow> Inl e | Inr new_val_float \<Rightarrow>
        (if old_val_float \<noteq> None \<and> new_val_float \<noteq> None
         then Inr (True, DFloat (f_sub (the old_val_float) (the new_val_float)))
         else if old_val_type = Some ''string'' \<and> new_val_type = Some ''string''
         then Inr (True, DBool (old_val = new_val))
         else Inr (False, DBool False))))))"

subsection \<open>The state of a \<open>Json_Dict_Compare_obj\<close>\<close>

text \<open>
  \<open>diff_msg_lt\<close> is a list of message strings, joined with \<open>;\<close> into the \<open>diff\<close> entry
  of \<open>val_results\<close>. The model keeps each message as a constructor with the values that
  the source formats into it, and \<open>diff\<close> as the list that is joined; the rendering of
  floats by \<open>%s\<close> is left out.
\<close>

datatype msg =
    N_A
  | Key_tag_not_in_original
  | Key_Tag_not_in_new
  | ValueType_changed "string option" "string option"
  | ValueType_unchanged "string option"
  | StringValue_unchanged
  | StringValue_changed pyval pyval
  | Value_difference_not_significant diff_val
  | Value_difference_significant diff_val
  | Cannot_compare_values
  | ObjectType_number_of_keys_changed nat nat
  | ObjectType_set_of_keys_changed
  | ObjectType_unchanged
  | ArrayType_number_of_elements_changed nat nat
  | ArrayType_unchanged

datatype category = Same | Changed | New | Dropped

record val_results =
  key_tag :: string
  old_val :: pyval
  old_val_type :: "string option"
  new_val :: pyval
  new_val_type :: "string option"
  diff :: "msg list"

record compare_dict =
  dropped :: "val_results list"
  new :: "val_results list"
  changed :: "val_results list"
  same :: "val_results list"

record compare_obj =
  compare_dict :: compare_dict
  result_tag :: category
  diff_msg_lt :: "msg list"
  val_results :: val_results

definition empty_compare_dict :: compare_dict where
  "empty_compare_dict = \<lparr>dropped = [], new = [], changed = [], same = []\<rparr>"

text \<open>\<open>self.compare_dict[tag].append(r)\<close>\<close>

fun append_to :: "category \<Rightarrow> val_results \<Rightarrow> compare_dict \<Rightarrow> compare_dict" where
  "append_to Same r cd = cd\<lparr>same := same cd @ [r]\<rparr>"
| "append_to Changed r cd = cd\<lparr>changed := changed cd @ [r]\<rparr>"
| "append_to New r cd = cd\<lparr>new := new cd @ [r]\<rparr>"
| "append_to Dropped r cd = cd\<lparr>dropped := dropped cd @ [r]\<rparr>"

text \<open>
  The loop \<open>for compare_key, sub_lt in sub_compare_obj.compare_dict.items(): ...\<close>
  appends every list of the child to the list of the same key.
\<close>

definition extend_with :: "compare_dict \<Rightarrow> compare_dict \<Rightarrow> compare_dict" where
  "extend_with cd sub =
     \<lparr>dropped = dropped cd @ dropped sub, new = new cd @ new sub,
      changed = changed cd @ changed sub, same = same cd @ same sub\<rparr>"

text \<open>The children are built in order; an exception in one of them ends the run.\<close>

fun merge_subs :: "compare_dict \<Rightarrow> (py_error + compare_obj) list \<Rightarrow> py_error + compare_dict" where
  "merge_subs cd [] = Inr cd"
| "merge_subs cd (Inl e # rest) = Inl e"
| "merge_subs cd (Inr sub # rest) = merge_subs (extend_with cd (compare_dict sub)) rest"

subsection \<open>\<open>Json_Dict_Compare_obj.__init__\<close> and \<open>container_drilldown\<close>\<close>

text \<open>
  The parameter \<open>key_tag\<close> of the constructor is written \<open>tag\<close> below; \<open>key_tag\<close> is the
  entry of \<open>val_results\<close> that holds it.
  A side of a node is \<open>False\<close> (absent, \<open>None\<close> here) or the one-entry dict
  \<open>{key_tag: value}\<close> (\<open>Some value\<close> here). The entry point for two files passes
  \<open>{'': tree}\<close> on both sides with \<open>key_tag = ''\<close>. For an absent side the value and
  its type are both the string \<open>'-'\<close>.
\<close>

fun side_val :: "pyval option \<Rightarrow> pyval" where
  "side_val (Some v) = v"
| "side_val None = PStr ''-''"

fun side_type :: "pyval option \<Rightarrow> py_error + string option" where
  "side_type (Some v) = type_dict v"
| "side_type None = Inr (Some ''-'')"

definition shown_val :: "pyval \<Rightarrow> string option \<Rightarrow> pyval" where
  "shown_val v t =
     (case t of None \<Rightarrow> v
      | Some n \<Rightarrow> (case container_dict n of None \<Rightarrow> v | Some p \<Rightarrow> PStr p))"

definition container_cnt :: "string option \<Rightarrow> string option \<Rightarrow> nat" where
  "container_cnt ot nt =
     sum_list (map (\<lambda>type_tag. count_list [ot, nt] (Some type_tag)) [''object'', ''array''])"

text \<open>Lines 149 to 164: the absence check and the type check.\<close>

definition first_checks ::
  "pyval option \<Rightarrow> pyval option \<Rightarrow> string option \<Rightarrow> string option \<Rightarrow> category \<times> msg list" where
  "first_checks old_keyval new_keyval ot nt =
     (if old_keyval = None \<or> new_keyval = None then
        (if old_keyval = None then (New, [Key_tag_not_in_original])
         else (Dropped, [Key_Tag_not_in_new]))
      else if ot \<noteq> nt then (Changed, [ValueType_changed ot nt])
      else (Same, [ValueType_unchanged ot]))"

text \<open>\<open>abs(diff_val)\<close>: on a boolean, \<open>abs\<close> gives the integer 0 or 1.\<close>

fun abs_diff_val :: "diff_val \<Rightarrow> pyfloat" where
  "abs_diff_val (DFloat x) = f_abs x"
| "abs_diff_val (DBool b) = Fin (if b then 1 else 0)"

text \<open>Lines 167 to 182: the value comparison of a node that is no container on either side.\<close>

definition leaf_diff ::
  "(string \<Rightarrow> pyfloat option) \<Rightarrow> pyfloat \<Rightarrow> pyval option \<Rightarrow> pyval option \<Rightarrow>
   string option \<Rightarrow> string option \<Rightarrow> category \<times> msg list \<Rightarrow> py_error + (category \<times> msg list)" where
  "leaf_diff fl sig_diff_frac old_keyval new_keyval ot nt st =
     (case test_value_diff fl (side_val old_keyval) (side_val new_keyval) of Inl e \<Rightarrow> Inl e
      | Inr (compare_flg, dv) \<Rightarrow>
        if compare_flg \<and> old_keyval \<noteq> None \<and> new_keyval \<noteq> None then
          (let st1 =
             (if dv = DBool True \<and> count_list [ot, nt] (Some ''string'') = 2
              then (fst st, snd st @ [StringValue_unchanged])
              else if dv = DBool False
              then (Changed, snd st @ [StringValue_changed (side_val old_keyval) (side_val new_keyval)])
              else st)
           in (case test_string_to_float fl (side_val old_keyval) of Inl e \<Rightarrow> Inl e
               | Inr None \<Rightarrow> Inr st1
               | Inr (Some a) \<Rightarrow>
                   (let old_val_sig_diff = f_abs (f_mul a sig_diff_frac)
                    in if f_le (abs_diff_val dv) old_val_sig_diff
                       then Inr (fst st1, snd st1 @ [Value_difference_not_significant dv])
                       else Inr (Changed, snd st1 @ [Value_difference_significant dv]))))
        else if \<not> compare_flg then Inr (fst st, snd st @ [Cannot_compare_values])
        else Inr st)"

text \<open>The keys of a dict and the elements of a list; empty for any other value.\<close>

fun dict_items :: "pyval \<Rightarrow> (string \<times> pyval) list" where
  "dict_items (PDict d) = d"
| "dict_items _ = []"

fun list_items :: "pyval \<Rightarrow> pyval list" where
  "list_items (PList xs) = xs"
| "list_items _ = []"

definition sorted_keys :: "pyval \<Rightarrow> string list" where
  "sorted_keys v = sort (remdups (map fst (dict_items v)))"

definition val_keys :: "pyval option \<Rightarrow> string option \<Rightarrow> string list" where
  "val_keys side t = (if t = Some ''object'' then sorted_keys (side_val side) else [])"

definition lt_len :: "pyval option \<Rightarrow> string option \<Rightarrow> nat" where
  "lt_len side t = (if t = Some ''array'' then length (list_items (side_val side)) else 0)"

text \<open>\<open>'object' in [self.old_val_type, self.new_val_type]\<close>, and the same for \<open>'array'\<close>.\<close>

definition has_type :: "string \<Rightarrow> string option \<Rightarrow> string option \<Rightarrow> bool" where
  "has_type type_tag ot nt = (Some type_tag \<in> set [ot, nt])"

text \<open>Lines 193 to 201 and 219 to 224: the summary of an object and of an array.\<close>

definition object_step ::
  "string option \<Rightarrow> string option \<Rightarrow> string list \<Rightarrow> string list \<Rightarrow>
   category \<times> msg list \<Rightarrow> category \<times> msg list" where
  "object_step ot nt oks nks st =
     (if fst st \<notin> {New, Dropped} then
        (if length oks \<noteq> length nks \<or> oks \<noteq> nks \<or> ot \<noteq> nt then
           (Changed,
            snd st @
              (if length oks \<noteq> length nks
               then [ObjectType_number_of_keys_changed (length oks) (length nks)]
               else if oks \<noteq> nks then [ObjectType_set_of_keys_changed] else []))
         else (fst st, snd st @ [ObjectType_unchanged]))
      else st)"

definition array_step ::
  "string option \<Rightarrow> string option \<Rightarrow> nat \<Rightarrow> nat \<Rightarrow> category \<times> msg list \<Rightarrow> category \<times> msg list" where
  "array_step ot nt ol nl st =
     (if fst st \<notin> {New, Dropped} then
        (if ol \<noteq> nl \<or> ot \<noteq> nt
         then (Changed, snd st @ [ArrayType_number_of_elements_changed ol nl])
         else (fst st, snd st @ [ArrayType_unchanged]))
      else st)"

text \<open>
  The decimal numeral that \<open>%d\<close> prints, and the tags of the children:
  \<open>'%s:%s' % (key_tag, k)\<close> and \<open>'%s:(array elem-%d)' % (key_tag, cnt)\<close>, or \<open>k\<close> and
  \<open>'array elem %d' % cnt\<close> when \<open>key_tag\<close> is empty.
\<close>

function decimal :: "nat \<Rightarrow> string" where
  "decimal n =
     (if n < 10 then [char_of (48 + n)]
      else decimal (n div 10) @ [char_of (48 + n mod 10)])"
  by pat_completeness auto
termination
  by (relation "measure id") auto

declare decimal.simps [simp del]

definition object_sub_key :: "string \<Rightarrow> string \<Rightarrow> string" where
  "object_sub_key tag k = (if tag \<noteq> [] then tag @ '':'' @ k else k)"

definition array_sub_key :: "string \<Rightarrow> nat \<Rightarrow> string" where
  "array_sub_key tag cnt =
     (if tag \<noteq> [] then tag @ '':(array elem-'' @ decimal cnt @ '')''
      else ''array elem '' @ decimal cnt)"

text \<open>
  The arguments of the child constructors, in the order of the two loops. The object
  loop runs when either type is \<open>'object'\<close>, the array loop when either is \<open>'array'\<close>.
\<close>

definition object_subcalls ::
  "string \<Rightarrow> pyval option \<Rightarrow> pyval option \<Rightarrow> string option \<Rightarrow> string option \<Rightarrow>
   (string \<times> pyval option \<times> pyval option) list" where
  "object_subcalls tag old_keyval new_keyval ot nt =
     (if has_type ''object'' ot nt then
        map (\<lambda>k. (object_sub_key tag k,
                  (if ot = Some ''object'' then map_of (dict_items (side_val old_keyval)) k else None),
                  (if nt = Some ''object'' then map_of (dict_items (side_val new_keyval)) k else None)))
          (sort (remdups (val_keys old_keyval ot @ val_keys new_keyval nt)))
      else [])"

definition array_subcalls ::
  "string \<Rightarrow> pyval option \<Rightarrow> pyval option \<Rightarrow> string option \<Rightarrow> string option \<Rightarrow>
   (string \<times> pyval option \<times> pyval option) list" where
  "array_subcalls tag old_keyval new_keyval ot nt =
     (if has_type ''array'' ot nt then
        map (\<lambda>cnt. (array_sub_key tag cnt,
                    (if cnt < lt_len old_keyval ot then Some (list_items (side_val old_keyval) ! cnt) else None),
                    (if cnt < lt_len new_keyval nt then Some (list_items (side_val new_keyval) ! cnt) else None)))
          [0 ..< max (lt_len old_keyval ot) (lt_len new_keyval nt)]
      else [])"

text \<open>
  \<open>container_drilldown\<close>, given the results of the child constructors of both loops.
  \<open>self.val_results\<close> is one dict object: the object branch and the array branch append
  that same object, so when both branches run (an object on one side, an array on the
  other) the bucket holds it twice, and both entries show the \<open>diff\<close> that the array
  branch wrote last. The object branch appends it only under a non-empty \<open>key_tag\<close>;
  the array branch appends it always.
\<close>

definition object_summary ::
  "pyval option \<Rightarrow> pyval option \<Rightarrow> string option \<Rightarrow> string option \<Rightarrow>
   category \<times> msg list \<Rightarrow> category \<times> msg list" where
  "object_summary old_keyval new_keyval ot nt st =
     (if has_type ''object'' ot nt
      then object_step ot nt (val_keys old_keyval ot) (val_keys new_keyval nt) st
      else st)"

definition array_summary ::
  "pyval option \<Rightarrow> pyval option \<Rightarrow> string option \<Rightarrow> string option \<Rightarrow>
   category \<times> msg list \<Rightarrow> category \<times> msg list" where
  "array_summary old_keyval new_keyval ot nt st =
     (if has_type ''array'' ot nt
      then array_step ot nt (lt_len old_keyval ot) (lt_len new_keyval nt) st
      else st)"

definition container_drilldown ::
  "string \<Rightarrow> pyval option \<Rightarrow> pyval option \<Rightarrow> string option \<Rightarrow> string option \<Rightarrow>
   category \<times> msg list \<Rightarrow> val_results \<Rightarrow>
   (py_error + compare_obj) list \<Rightarrow> (py_error + compare_obj) list \<Rightarrow> py_error + compare_obj" where
  "container_drilldown tag old_keyval new_keyval ot nt st vr object_subs array_subs =
     (let st1 = object_summary old_keyval new_keyval ot nt st;
          st2 = array_summary old_keyval new_keyval ot nt st1;
          vr2 = vr\<lparr>diff := snd st2\<rparr>;
          cd1 = (if has_type ''object'' ot nt \<and> tag \<noteq> []
                 then append_to (fst st1) vr2 empty_compare_dict
                 else empty_compare_dict)
      in (case (if has_type ''object'' ot nt then merge_subs cd1 object_subs else Inr cd1) of
            Inl e \<Rightarrow> Inl e
          | Inr cd2 \<Rightarrow>
             (let cd3 = (if has_type ''array'' ot nt then append_to (fst st2) vr2 cd2 else cd2)
              in (case (if has_type ''array'' ot nt then merge_subs cd3 array_subs else Inr cd3) of
                    Inl e \<Rightarrow> Inl e
                  | Inr cd4 \<Rightarrow>
                      Inr \<lparr>compare_dict = cd4, result_tag = fst st2,
                           diff_msg_lt = snd st2, val_results = vr2\<rparr>))))"

text \<open>The leaf part of \<open>__init__\<close> (lines 166 to 184).\<close>

definition leaf_node ::
  "(string \<Rightarrow> pyfloat option) \<Rightarrow> pyfloat \<Rightarrow> pyval option \<Rightarrow> pyval option \<Rightarrow>
   string option \<Rightarrow> string option \<Rightarrow> category \<times> msg list \<Rightarrow> val_results \<Rightarrow>
   py_error + compare_obj" where
  "leaf_node fl sig_diff_frac old_keyval new_keyval ot nt st vr =
     (case leaf_diff fl sig_diff_frac old_keyval new_keyval ot nt st of
        Inl e \<Rightarrow> Inl e
      | Inr st' \<Rightarrow>
          Inr \<lparr>compare_dict = append_to (fst st') (vr\<lparr>diff := snd st'\<rparr>) empty_compare_dict,
               result_tag = fst st', diff_msg_lt = snd st',
               val_results = vr\<lparr>diff := snd st'\<rparr>\<rparr>)"

fun size_side :: "pyval option \<Rightarrow> nat" where
  "size_side None = 0"
| "size_side (Some v) = Suc (size v)"

function Json_Dict_Compare_obj ::
  "(string \<Rightarrow> pyfloat option) \<Rightarrow> pyfloat \<Rightarrow> string \<Rightarrow> pyval option \<Rightarrow> pyval option \<Rightarrow>
   py_error + compare_obj" where
  "Json_Dict_Compare_obj fl sig_diff_frac tag old_keyval new_keyval =
     (case side_type old_keyval of Inl e \<Rightarrow> Inl e | Inr ot \<Rightarrow>
     (case side_type new_keyval of Inl e \<Rightarrow> Inl e | Inr nt \<Rightarrow>
       (let vr = \<lparr>key_tag = tag,
                  old_val = shown_val (side_val old_keyval) ot, old_val_type = ot,
                  new_val = shown_val (side_val new_keyval) nt, new_val_type = nt,
                  diff = [N_A]\<rparr>;
            st = first_checks old_keyval new_keyval ot nt
        in if container_cnt ot nt > 0 then
             container_drilldown tag old_keyval new_keyval ot nt st vr
               (map (\<lambda>(k, o', n'). Json_Dict_Compare_obj fl sig_diff_frac k o' n')
                    (object_subcalls tag old_keyval new_keyval ot nt))
               (map (\<lambda>(k, o', n'). Json_Dict_Compare_obj fl sig_diff_frac k o' n')
                    (array_subcalls tag old_keyval new_keyval ot nt))
           else leaf_node fl sig_diff_frac old_keyval new_keyval ot nt st vr)))"
  by pat_completeness auto

text \<open>Every child call gets strictly smaller sides, so the recursion ends.\<close>

lemma size_dict_item: "(k, v) \<in> set d \<Longrightarrow> size v < size (PDict d)"
  by (induction d) auto

lemma size_list_item: "v \<in> set xs \<Longrightarrow> size v < size (PList xs)"
  by (induction xs) auto

lemma size_side_dict:
  "map_of (dict_items (side_val s)) k = Some v \<Longrightarrow> size_side (Some v) < size_side s"
proof -
  assume a: "map_of (dict_items (side_val s)) k = Some v"
  then have in_set: "(k, v) \<in> set (dict_items (side_val s))" by (rule map_of_SomeD)
  then obtain w where s: "s = Some w" by (cases s) auto
  with in_set obtain d where w: "w = PDict d" by (cases w) auto
  from in_set s w have "(k, v) \<in> set d" by simp
  then have "size v < size (PDict d)" by (rule size_dict_item)
  with s w show ?thesis by simp
qed

lemma size_side_list:
  "i < length (list_items (side_val s)) \<Longrightarrow>
   size_side (Some (list_items (side_val s) ! i)) < size_side s"
proof -
  assume a: "i < length (list_items (side_val s))"
  then obtain w where s: "s = Some w" by (cases s) auto
  with a obtain xs where w: "w = PList xs" by (cases w) auto
  from a s w have "xs ! i \<in> set xs" by simp
  then have "size (xs ! i) < size (PList xs)" by (rule size_list_item)
  with s w show ?thesis by simp
qed

lemma val_keys_dom:
  "k \<in> set (val_keys s t) \<Longrightarrow> t = Some ''object'' \<and> map_of (dict_items (side_val s)) k \<noteq> None"
  by (auto simp: val_keys_def sorted_keys_def map_of_eq_None_iff split: if_splits)


lemma object_subcalls_key:
  assumes "(k, o', n') \<in> set (object_subcalls tag old_keyval new_keyval ot nt)"
  shows "\<exists>key. (key \<in> set (val_keys old_keyval ot) \<or> key \<in> set (val_keys new_keyval nt))
      \<and> o' = (if ot = Some ''object'' then map_of (dict_items (side_val old_keyval)) key else None)
      \<and> n' = (if nt = Some ''object'' then map_of (dict_items (side_val new_keyval)) key else None)"
proof (cases "has_type ''object'' ot nt")
  case True
  with assms obtain key where
    "key \<in> set (sort (remdups (val_keys old_keyval ot @ val_keys new_keyval nt)))"
    "(k, o', n') = (object_sub_key tag key,
        (if ot = Some ''object'' then map_of (dict_items (side_val old_keyval)) key else None),
        (if nt = Some ''object'' then map_of (dict_items (side_val new_keyval)) key else None))"
    unfolding object_subcalls_def by (auto simp only: if_True set_map image_iff)
  then show ?thesis by (intro exI [of _ key]) simp
next
  case False
  with assms show ?thesis unfolding object_subcalls_def by (simp only: if_False) simp
qed

lemma array_subcalls_cnt:
  assumes "(k, o', n') \<in> set (array_subcalls tag old_keyval new_keyval ot nt)"
  shows "\<exists>cnt. (cnt < lt_len old_keyval ot \<or> cnt < lt_len new_keyval nt)
      \<and> o' = (if cnt < lt_len old_keyval ot then Some (list_items (side_val old_keyval) ! cnt) else None)
      \<and> n' = (if cnt < lt_len new_keyval nt then Some (list_items (side_val new_keyval) ! cnt) else None)"
proof (cases "has_type ''array'' ot nt")
  case True
  with assms obtain cnt where
    "cnt \<in> set [0 ..< max (lt_len old_keyval ot) (lt_len new_keyval nt)]"
    "(k, o', n') = (array_sub_key tag cnt,
        (if cnt < lt_len old_keyval ot then Some (list_items (side_val old_keyval) ! cnt) else None),
        (if cnt < lt_len new_keyval nt then Some (list_items (side_val new_keyval) ! cnt) else None))"
    unfolding array_subcalls_def by (auto simp only: if_True set_map image_iff)
  then show ?thesis by (intro exI [of _ cnt]) auto
next
  case False
  with assms show ?thesis unfolding array_subcalls_def by (simp only: if_False) simp
qed


lemma side_child_le:
  assumes "c = None \<or> (\<exists>v. c = Some v \<and> size_side (Some v) < size_side s)"
  shows "size_side c \<le> size_side s"
  using assms by (cases c) auto

lemma object_subcalls_smaller:
  assumes "(k, o', n') \<in> set (object_subcalls tag old_keyval new_keyval ot nt)"
  shows "size_side o' + size_side n' < size_side old_keyval + size_side new_keyval"
proof -
  from object_subcalls_key [OF assms] obtain key where
    key: "key \<in> set (val_keys old_keyval ot) \<or> key \<in> set (val_keys new_keyval nt)"
    and o': "o' = (if ot = Some ''object'' then map_of (dict_items (side_val old_keyval)) key else None)"
    and n': "n' = (if nt = Some ''object'' then map_of (dict_items (side_val new_keyval)) key else None)"
    by blast
  have so: "o' = None \<or> (\<exists>v. o' = Some v \<and> size_side (Some v) < size_side old_keyval)"
  proof (cases o')
    case (Some v)
    with o' have "map_of (dict_items (side_val old_keyval)) key = Some v"
      by (simp split: if_splits)
    then show ?thesis using Some size_side_dict by blast
  qed simp
  have sn: "n' = None \<or> (\<exists>v. n' = Some v \<and> size_side (Some v) < size_side new_keyval)"
  proof (cases n')
    case (Some v)
    with n' have "map_of (dict_items (side_val new_keyval)) key = Some v"
      by (simp split: if_splits)
    then show ?thesis using Some size_side_dict by blast
  qed simp
  from key show ?thesis
  proof
    assume "key \<in> set (val_keys old_keyval ot)"
    then have "ot = Some ''object''" "map_of (dict_items (side_val old_keyval)) key \<noteq> None"
      using val_keys_dom by blast+
    with o' so have "size_side o' < size_side old_keyval" by auto
    with side_child_le [OF sn] show ?thesis by linarith
  next
    assume "key \<in> set (val_keys new_keyval nt)"
    then have "nt = Some ''object''" "map_of (dict_items (side_val new_keyval)) key \<noteq> None"
      using val_keys_dom by blast+
    with n' sn have "size_side n' < size_side new_keyval" by auto
    with side_child_le [OF so] show ?thesis by linarith
  qed
qed

lemma array_subcalls_smaller:
  assumes "(k, o', n') \<in> set (array_subcalls tag old_keyval new_keyval ot nt)"
  shows "size_side o' + size_side n' < size_side old_keyval + size_side new_keyval"
proof -
  from array_subcalls_cnt [OF assms] obtain cnt where
    cnt: "cnt < lt_len old_keyval ot \<or> cnt < lt_len new_keyval nt"
    and o': "o' = (if cnt < lt_len old_keyval ot then Some (list_items (side_val old_keyval) ! cnt) else None)"
    and n': "n' = (if cnt < lt_len new_keyval nt then Some (list_items (side_val new_keyval) ! cnt) else None)"
    by blast
  have lt_o: "size_side o' < size_side old_keyval" if "cnt < lt_len old_keyval ot"
  proof -
    from that have "cnt < length (list_items (side_val old_keyval))"
      by (simp add: lt_len_def split: if_splits)
    from size_side_list [OF this] that show ?thesis by (simp add: o')
  qed
  have lt_n: "size_side n' < size_side new_keyval" if "cnt < lt_len new_keyval nt"
  proof -
    from that have "cnt < length (list_items (side_val new_keyval))"
      by (simp add: lt_len_def split: if_splits)
    from size_side_list [OF this] that show ?thesis by (simp add: n')
  qed
  have le_o: "size_side o' \<le> size_side old_keyval"
    using lt_o by (cases "cnt < lt_len old_keyval ot") (simp_all add: o')
  have le_n: "size_side n' \<le> size_side new_keyval"
    using lt_n by (cases "cnt < lt_len new_keyval nt") (simp_all add: n')
  from cnt lt_o lt_n le_o le_n show ?thesis by linarith
qed

termination Json_Dict_Compare_obj
proof (relation "measure (\<lambda>(fl, frac, tag, ol, nw). size_side ol + size_side nw)")
  show "wf (measure (\<lambda>(fl, frac, tag, ol, nw). size_side ol + size_side nw))" by simp
next
  fix fl :: "string \<Rightarrow> pyfloat option" and sig_diff_frac :: pyfloat
  fix tag old_keyval new_keyval ot nt
  fix z :: "string \<times> pyval option \<times> pyval option" and x y xa ya
  assume z: "z \<in> set (object_subcalls tag old_keyval new_keyval ot nt)"
    and "(x, y) = z" "(xa, ya) = y"
  then have "z = (x, xa, ya)" by simp
  with z have "size_side xa + size_side ya < size_side old_keyval + size_side new_keyval"
    using object_subcalls_smaller by blast
  then show "((fl, sig_diff_frac, x, xa, ya), fl, sig_diff_frac, tag, old_keyval, new_keyval)
       \<in> measure (\<lambda>(fl, frac, tag, ol, nw). size_side ol + size_side nw)"
    by simp
next
  fix fl :: "string \<Rightarrow> pyfloat option" and sig_diff_frac :: pyfloat
  fix tag old_keyval new_keyval ot nt
  fix z :: "string \<times> pyval option \<times> pyval option" and x y xa ya
  assume z: "z \<in> set (array_subcalls tag old_keyval new_keyval ot nt)"
    and "(x, y) = z" "(xa, ya) = y"
  then have "z = (x, xa, ya)" by simp
  with z have "size_side xa + size_side ya < size_side old_keyval + size_side new_keyval"
    using array_subcalls_smaller by blast
  then show "((fl, sig_diff_frac, x, xa, ya), fl, sig_diff_frac, tag, old_keyval, new_keyval)
       \<in> measure (\<lambda>(fl, frac, tag, ol, nw). size_side ol + size_side nw)"
    by simp
qed

declare Json_Dict_Compare_obj.simps [simp del]

text \<open>
  An instance of the parameter \<open>fl\<close> for the examples: it agrees with \<open>float\<close> on
  strings of decimal digits (the nearest double of the integer they denote, \<open>inf\<close>
  beyond the range of the doubles), on \<open>'nan'\<close> and \<open>'inf'\<close>, and on strings of letters
  that are no number. It is a fragment of the interpreter's parser, used only where a
  closed example needs one.
\<close>

definition digit_strings :: "string \<Rightarrow> bool" where
  "digit_strings s = (s \<noteq> [] \<and> list_all (\<lambda>c. c \<in> set ''0123456789'') s)"

definition digits_value :: "string \<Rightarrow> nat" where
  "digits_value s = foldl (\<lambda>n c. 10 * n + (of_char c - 48)) 0 s"

definition float_fragment :: "string \<Rightarrow> pyfloat option" where
  "float_fragment s =
     (if s = ''nan'' then Some NaN
      else if s = ''inf'' then Some PInf
      else if digit_strings s then Some (round_double (of_nat (digits_value s)))
      else None)"

subsection \<open>Notions for the properties of the comparison\<close>

text \<open>
  The leaf rule in the words of the specification: the threshold is the magnitude of
  the old value times the significance fraction, and the category is \<open>same\<close> exactly
  when the types agree and the magnitude of the difference is within the threshold.
\<close>

definition spec_leaf_category ::
  "string option \<Rightarrow> string option \<Rightarrow> pyfloat \<Rightarrow> pyfloat \<Rightarrow> pyfloat \<Rightarrow> category" where
  "spec_leaf_category ot nt old_f new_f sdf =
     (if ot \<noteq> nt then Changed
      else if f_le (f_abs (f_sub old_f new_f)) (f_mul (f_abs old_f) sdf) then Same
      else Changed)"

text \<open>
  A later state of (\<open>result_tag\<close>, \<open>diff_msg_lt\<close>) extends an earlier one: messages are
  only appended, and a tag that is \<open>changed\<close> stays \<open>changed\<close>.
\<close>

definition extends_state :: "category \<times> msg list \<Rightarrow> category \<times> msg list \<Rightarrow> bool" where
  "extends_state st st' =
     ((\<exists>ms. snd st' = snd st @ ms) \<and> (fst st = Changed \<longrightarrow> fst st' = Changed))"

text \<open>
  Trees on which the numeric comparison stays within the finite floats: no \<open>long\<close>,
  every float finite, and every string either no number for \<open>float\<close> or a finite one.
\<close>

fun is_fin :: "pyfloat \<Rightarrow> bool" where
  "is_fin (Fin x) = True"
| "is_fin _ = False"

fun finite_numbers :: "(string \<Rightarrow> pyfloat option) \<Rightarrow> pyval \<Rightarrow> bool" where
  "finite_numbers fl PNone = True"
| "finite_numbers fl (PBool b) = True"
| "finite_numbers fl (PInt i) = True"
| "finite_numbers fl (PLong i) = False"
| "finite_numbers fl (PFloat x) = is_fin x"
| "finite_numbers fl (PStr s) = (case fl s of None \<Rightarrow> True | Some x \<Rightarrow> is_fin x)"
| "finite_numbers fl (PList xs) = list_all (finite_numbers fl) xs"
| "finite_numbers fl (PDict d) = list_all (finite_numbers fl) (map snd d)"

text \<open>A result whose buckets other than \<open>same\<close> are empty.\<close>

definition only_same :: "compare_dict \<Rightarrow> bool" where
  "only_same cd = (changed cd = [] \<and> new cd = [] \<and> dropped cd = [])"

definition self_same :: "py_error + compare_obj \<Rightarrow> bool" where
  "self_same r = (case r of Inl e \<Rightarrow> False
     | Inr obj \<Rightarrow> result_tag obj = Same \<and> only_same (compare_dict obj))"

text \<open>Trees, and sides of a node, without a \<open>long\<close>.\<close>

fun no_long :: "pyval \<Rightarrow> bool" where
  "no_long (PLong i) = False"
| "no_long (PList xs) = list_all no_long xs"
| "no_long (PDict d) = list_all no_long (map snd d)"
| "no_long _ = True"

fun side_no_long :: "pyval option \<Rightarrow> bool" where
  "side_no_long None = True"
| "side_no_long (Some v) = no_long v"

section \<open>address\_nested\_data.py\<close>

text \<open>
  This module is Python 3: an integer is an \<open>int\<close> of any size. \<open>Keys\<close> is a property
  name or an array index, an \<open>Address\<close> a tuple of keys, and an \<open>AddressedValue\<close> a
  pair of an address and a value that is no container.
\<close>

datatype jsonvalue =
    JNone
  | JBool bool
  | JInt int
  | JFloat pyfloat
  | JStr string
  | JList "jsonvalue list"
  | JDict "(string \<times> jsonvalue) list"

datatype keys = KInt int | KStr string

type_synonym address = "keys list"

type_synonym addressed_value = "address \<times> jsonvalue"

text \<open>
  \<open>value_drilldown\<close> is a generator; the model is the list of what it yields, in order.
  The first argument is a key or a list of keys; a single key is wrapped in a list
  first. \<open>enumerate\<close> numbers the elements of a list from 0, and \<open>items\<close> gives the
  entries of a dict in their order.
\<close>

datatype key_address = Single keys | Many "keys list"

fun as_list :: "key_address \<Rightarrow> keys list" where
  "as_list (Single k) = [k]"
| "as_list (Many ks) = ks"

definition enumerate_py :: "'a list \<Rightarrow> (nat \<times> 'a) list" where
  "enumerate_py xs = zip [0 ..< length xs] xs"

function drilldown :: "keys list \<Rightarrow> jsonvalue \<Rightarrow> addressed_value list" where
  "drilldown key_address (JList xs) =
     concat (map (\<lambda>(cnt, sub_value). drilldown (key_address @ [KInt (int cnt)]) sub_value)
                 (enumerate_py xs))"
| "drilldown key_address (JDict d) =
     concat (map (\<lambda>(key, sub_value). drilldown (key_address @ [KStr key]) sub_value) d)"
| "drilldown key_address JNone = [(key_address, JNone)]"
| "drilldown key_address (JBool b) = [(key_address, JBool b)]"
| "drilldown key_address (JInt i) = [(key_address, JInt i)]"
| "drilldown key_address (JFloat x) = [(key_address, JFloat x)]"
| "drilldown key_address (JStr s) = [(key_address, JStr s)]"
  by pat_completeness auto

lemma enumerate_py_member: "(cnt, x) \<in> set (enumerate_py xs) \<Longrightarrow> x \<in> set xs"
  unfolding enumerate_py_def by (rule set_zip_rightD)

lemma size_json_list_item: "x \<in> set xs \<Longrightarrow> size x < size (JList xs)"
  by (induction xs) auto

lemma size_json_dict_item: "(k, v) \<in> set d \<Longrightarrow> size v < size (JDict d)"
  by (induction d) auto

termination drilldown
proof (relation "measure (\<lambda>(ka, v). size v)")
  show "wf (measure (\<lambda>(ka, v). size v))" by simp
next
  fix key_address :: "keys list" and xs :: "jsonvalue list"
  fix x :: "nat \<times> jsonvalue" and xa y
  assume "x \<in> set (enumerate_py xs)" "(xa, y) = x"
  then have "y \<in> set xs" using enumerate_py_member [of xa y xs] by simp
  then show "((key_address @ [KInt (int xa)], y), key_address, JList xs) \<in> measure (\<lambda>(ka, v). size v)"
    using size_json_list_item by simp
next
  fix key_address :: "keys list" and d :: "(string \<times> jsonvalue) list"
  fix x :: "string \<times> jsonvalue" and xa y
  assume "x \<in> set d" "(xa, y) = x"
  then have "(xa, y) \<in> set d" by simp
  then show "((key_address @ [KStr xa], y), key_address, JDict d) \<in> measure (\<lambda>(ka, v). size v)"
    using size_json_dict_item by simp
qed

definition value_drilldown :: "key_address \<Rightarrow> jsonvalue \<Rightarrow> addressed_value list" where
  "value_drilldown key_address v = drilldown (as_list key_address) v"

text \<open>
  \<open>address_json\<close> opens and parses the file; \<open>load\<close> is the file system and the parser
  together (the tree of a path, or what \<open>open\<close> or \<open>json.load\<close> raise). Then it calls
  \<open>j_dict.items()\<close>: a root that is no dict has no such attribute.
\<close>

definition address_json ::
  "(string \<Rightarrow> py_error + jsonvalue) \<Rightarrow> string \<Rightarrow> py_error + addressed_value list" where
  "address_json load jsonfile =
     (case load jsonfile of
        Inl e \<Rightarrow> Inl e
      | Inr j_dict \<Rightarrow>
         (case j_dict of
            JDict d \<Rightarrow> Inr (concat (map (\<lambda>(k, v). value_drilldown (Single (KStr k)) v) d))
          | _ \<Rightarrow> Inl AttributeError))"

text \<open>
  The traversal rule in the words of the specification, as the pairs a tree emits
  below an address prefix: an object appends each key and recurses into its value, an
  array appends each position and recurses into the element, a scalar emits the current
  address with itself. An empty container has no entry to recurse into and emits
  nothing.
\<close>

fun is_scalar :: "jsonvalue \<Rightarrow> bool" where
  "is_scalar (JList xs) = False"
| "is_scalar (JDict d) = False"
| "is_scalar _ = True"

inductive emits :: "address \<Rightarrow> jsonvalue \<Rightarrow> addressed_value \<Rightarrow> bool" where
  emits_scalar: "is_scalar v \<Longrightarrow> emits prefix v (prefix, v)"
| emits_object: "(k, sub) \<in> set d \<Longrightarrow> emits (prefix @ [KStr k]) sub av \<Longrightarrow> emits prefix (JDict d) av"
| emits_array: "i < length xs \<Longrightarrow> emits (prefix @ [KInt (int i)]) (xs ! i) av \<Longrightarrow>
     emits prefix (JList xs) av"

section \<open>compare\_nested\_data.py\<close>

text \<open>
  An \<open>AddressedValueSet\<close> is an object with one attribute, the set \<open>addressed_values\<close>.
  The heap maps the reference of each object to that set; \<open>next_ref\<close> is the first
  reference not yet given out, so the objects that exist are those below it. The set
  methods of Python used here (\<open>union\<close>, \<open>intersection\<close>, \<open>difference\<close>) build a new set
  and change none, so the sets are values.
\<close>

text \<open>
  A Python set holds its elements up to equality: an element is found when it is the
  same object as, or \<open>==\<close> to, one that is there (with the same hash, which equal
  objects have). An \<open>AddressedValue\<close> is a tuple, and two tuples are equal when their
  components are. Among the scalars of JSON the numbers are equal by value whatever
  their type, \<open>True == 1 == 1.0\<close> and \<open>False == 0 == 0.0\<close> (an \<open>int\<close> and a \<open>float\<close> are
  compared exactly), a string is equal only to the same string, and \<open>None\<close> only to
  itself. A NaN is equal to nothing, so a tuple with a NaN is equal only to a tuple
  with the same NaN object; \<open>json.load\<close> gives the one object \<open>json.decoder.NaN\<close> for
  every NaN literal, which is number 0 below, and other NaN objects have other
  numbers. \<open>value_class\<close> is the class of a scalar under this equality, and an
  \<open>element\<close> that of an \<open>AddressedValue\<close>; which of two equal elements a set keeps
  (\<open>True\<close> or \<open>1\<close>) is left out. A list and a dict cannot be hashed, hence have no
  class.
\<close>

datatype value_class = VNone | VNum real | VInf bool | VNaN nat | VStr string

fun class_of :: "jsonvalue \<Rightarrow> value_class option" where
  "class_of JNone = Some VNone"
| "class_of (JBool b) = Some (VNum (if b then 1 else 0))"
| "class_of (JInt i) = Some (VNum (of_int i))"
| "class_of (JFloat (Fin x)) = Some (VNum x)"
| "class_of (JFloat PInf) = Some (VInf True)"
| "class_of (JFloat NInf) = Some (VInf False)"
| "class_of (JFloat NaN) = Some (VNaN 0)"
| "class_of (JStr s) = Some (VStr s)"
| "class_of (JList xs) = None"
| "class_of (JDict d) = None"

type_synonym element = "address \<times> value_class"

text \<open>
  \<open>set(...)\<close> of the tuples that a generator yields; it raises \<open>TypeError\<close> on a tuple
  that cannot be hashed.
\<close>

definition set_py :: "addressed_value list \<Rightarrow> py_error + element set" where
  "set_py avs =
     (if list_all (\<lambda>(a, v). class_of v \<noteq> None) avs
      then Inr (set (map (\<lambda>(a, v). (a, the (class_of v))) avs))
      else Inl TypeError)"

record heap =
  objs :: "nat \<Rightarrow> element set"
  next_ref :: nat

text \<open>
  An argument is a path (\<open>PurePath\<close> or \<open>str\<close>), an \<open>AddressedValueSet\<close> object, a set of
  \<open>AddressedValue\<close>, or anything else.
\<close>

datatype avs_input = InPath string | InAVS nat | InSet "element set" | InOther

fun get_addressedvalue_sets ::
  "(string \<Rightarrow> py_error + jsonvalue) \<Rightarrow> heap \<Rightarrow> avs_input list \<Rightarrow>
   py_error + element set list" where
  "get_addressedvalue_sets load h [] = Inr []"
| "get_addressedvalue_sets load h (data # rest) =
     (case (case data of
              InPath p \<Rightarrow> (case address_json load p of Inl e \<Rightarrow> Inl e | Inr avs \<Rightarrow> set_py avs)
            | InAVS r \<Rightarrow> Inr (objs h r)
            | InSet s \<Rightarrow> Inr s
            | InOther \<Rightarrow> Inl TypeError) of
        Inl e \<Rightarrow> Inl e
      | Inr s \<Rightarrow>
         (case get_addressedvalue_sets load h rest of
            Inl e \<Rightarrow> Inl e
          | Inr ss \<Rightarrow> Inr (s # ss)))"

text \<open>\<open>AddressedValueSet()\<close> without arguments: a new object with the empty set.\<close>

definition new_object :: "heap \<Rightarrow> heap \<times> nat" where
  "new_object h = (h\<lparr>objs := (objs h)(next_ref h := {}), next_ref := Suc (next_ref h)\<rparr>, next_ref h)"

text \<open>
  \<open>s.union(*others)\<close>, \<open>s.intersection(*others)\<close> and \<open>s.difference(*others)\<close> take the
  other sets one after the other.
\<close>

definition set_operation_result ::
  "string \<Rightarrow> element set \<Rightarrow> element set list \<Rightarrow> element set" where
  "set_operation_result set_operation own new_addressed_datasets =
     (if set_operation = ''union'' then foldl (\<union>) own new_addressed_datasets
      else if set_operation = ''intersection'' then foldl (\<inter>) own new_addressed_datasets
      else if set_operation = ''difference'' then foldl (-) own new_addressed_datasets
      else if set_operation = ''symmetric_difference'' then
        foldl (\<union>) own new_addressed_datasets - foldl (\<inter>) own new_addressed_datasets
      else {})"

definition addressedvalueset_logic ::
  "(string \<Rightarrow> py_error + jsonvalue) \<Rightarrow> heap \<Rightarrow> nat \<Rightarrow> avs_input list \<Rightarrow> string \<Rightarrow>
   py_error + (heap \<times> nat)" where
  "addressedvalueset_logic load h self dataset set_operation =
     (case get_addressedvalue_sets load h dataset of
        Inl e \<Rightarrow> Inl e
      | Inr new_addressed_datasets \<Rightarrow>
         (let addressed_values =
                set_operation_result set_operation (objs h self) new_addressed_datasets;
              (h1, new_avs) = new_object h
          in Inr (h1\<lparr>objs := (objs h1)(new_avs := addressed_values)\<rparr>, new_avs)))"

definition union_avs ::
  "(string \<Rightarrow> py_error + jsonvalue) \<Rightarrow> heap \<Rightarrow> nat \<Rightarrow> avs_input list \<Rightarrow> py_error + (heap \<times> nat)" where
  "union_avs load h self args = addressedvalueset_logic load h self args ''union''"

definition intersection_avs ::
  "(string \<Rightarrow> py_error + jsonvalue) \<Rightarrow> heap \<Rightarrow> nat \<Rightarrow> avs_input list \<Rightarrow> py_error + (heap \<times> nat)" where
  "intersection_avs load h self args = addressedvalueset_logic load h self args ''intersection''"

definition difference_avs ::
  "(string \<Rightarrow> py_error + jsonvalue) \<Rightarrow> heap \<Rightarrow> nat \<Rightarrow> avs_input list \<Rightarrow> py_error + (heap \<times> nat)" where
  "difference_avs load h self args = addressedvalueset_logic load h self args ''difference''"

definition symmetric_difference ::
  "(string \<Rightarrow> py_error + jsonvalue) \<Rightarrow> heap \<Rightarrow> nat \<Rightarrow> avs_input list \<Rightarrow> py_error + (heap \<times> nat)" where
  "symmetric_difference load h self args =
     addressedvalueset_logic load h self args ''symmetric_difference''"

text \<open>
  \<open>__init__\<close>: the new object starts with the empty set; with arguments it takes the
  set of the object that \<open>_addressedvalueset_logic(args, 'union')\<close> returns.
\<close>

definition AddressedValueSet_init ::
  "(string \<Rightarrow> py_error + jsonvalue) \<Rightarrow> heap \<Rightarrow> avs_input list \<Rightarrow> py_error + (heap \<times> nat)" where
  "AddressedValueSet_init load h args =
     (let (h1, self) = new_object h
      in if args \<noteq> [] then
           (case addressedvalueset_logic load h1 self args ''union'' of
              Inl e \<Rightarrow> Inl e
            | Inr (h2, tmp) \<Rightarrow> Inr (h2\<lparr>objs := (objs h2)(self := objs h2 tmp)\<rparr>, self))
         else Inr (h1, self))"

text \<open>The files of the examples: one with an object at the root, one with an array.\<close>

definition example_files :: "string \<Rightarrow> py_error + jsonvalue" where
  "example_files p =
     (if p = ''object.json'' then Inr (JDict [(''a'', JInt 1), (''b'', JList [JStr ''x'', JDict []])])
      else if p = ''array.json'' then Inr (JList [JInt 1])
      else Inl LoadError)"

text \<open>
  A heap with one object, the receiver of the examples: its set holds \<open>True\<close> at the
  address \<open>a\<close> and at the address \<open>c\<close>.
\<close>

definition example_heap :: heap where
  "example_heap =
     \<lparr>objs = (\<lambda>r. {})(0 := {([KStr ''a''], VNum 1), ([KStr ''c''], VNum 1)}), next_ref = 1\<rparr>"

section \<open>Properties of the comparison\<close>

lemma leaf_unfold:
  assumes "side_type old_keyval = Inr ot" "side_type new_keyval = Inr nt"
    and "container_cnt ot nt = 0"
  shows "Json_Dict_Compare_obj fl sdf tag old_keyval new_keyval =
     leaf_node fl sdf old_keyval new_keyval ot nt (first_checks old_keyval new_keyval ot nt)
       \<lparr>key_tag = tag, old_val = shown_val (side_val old_keyval) ot, old_val_type = ot,
        new_val = shown_val (side_val new_keyval) nt, new_val_type = nt, diff = [N_A]\<rparr>"
  using assms by (simp add: Json_Dict_Compare_obj.simps Let_def)

lemmas leaf_defs =
  container_cnt_def leaf_node_def leaf_diff_def first_checks_def test_value_diff_def
  test_string_to_float_def shown_val_def container_dict_def empty_compare_dict_def

subsection \<open>Rounding to a double\<close>

text \<open>
  The exponent that \<open>floor_log2\<close> computes is the one between whose powers of two the
  number lies; with the exponent given, \<open>round_double\<close> is a computation on rationals.
\<close>

lemma bitlen_eqI:
  assumes "2 ^ k \<le> n" and "n < 2 ^ (k + 1)"
  shows "bitlen n = int k + 1"
proof (rule antisym)
  show "bitlen n \<le> int k + 1"
    using assms(2) by (simp add: bitlen_le_iff_power nat_add_distrib)
  show "int k + 1 \<le> bitlen n"
    using assms(1) by (simp add: bitlen_ge_iff_power nat_add_distrib)
qed

lemma floor_log2_nonneg:
  assumes "2 ^ k \<le> y" and "y < 2 ^ (k + 1)"
  shows "floor_log2 y = int k"
proof -
  have "(1::real) \<le> 2 ^ k" by simp
  then have y1: "1 \<le> y" using assms(1) by linarith
  have "real_of_int (2 ^ k) \<le> y" using assms(1) by simp
  then have lo: "2 ^ k \<le> \<lfloor>y\<rfloor>" by (simp only: le_floor_iff)
  have "y < real_of_int (2 ^ (k + 1))" using assms(2) by simp
  then have hi: "\<lfloor>y\<rfloor> < 2 ^ (k + 1)" by (simp only: floor_less_iff)
  have "bitlen \<lfloor>y\<rfloor> = int k + 1" by (rule bitlen_eqI [OF lo hi])
  then show ?thesis using y1 by (simp add: floor_log2_def)
qed

lemma floor_log2_neg:
  assumes "1 / 2 ^ (k + 1) \<le> y" and "y < 1 / 2 ^ k"
  shows "floor_log2 y = - int (k + 1)"
proof -
  have pos: "0 < y" by (rule less_le_trans [OF _ assms(1)]) simp
  have "(1::real) / 2 ^ k \<le> 1" by simp
  then have y1: "\<not> 1 \<le> y" using assms(2) by linarith
  have "2 ^ k * y < 1" using assms(2) by (simp add: field_simps)
  then have "real_of_int (2 ^ k) < 1 / y" using pos by (simp add: field_simps)
  then have lo: "2 ^ k < \<lceil>1 / y\<rceil>" by (simp only: less_ceiling_iff)
  have "1 \<le> 2 ^ (k + 1) * y" using assms(1) by (simp add: field_simps)
  then have "1 / y \<le> real_of_int (2 ^ (k + 1))" using pos by (simp add: field_simps)
  then have hi: "\<lceil>1 / y\<rceil> \<le> 2 ^ (k + 1)" by (simp only: ceiling_le_iff)
  have "bitlen (\<lceil>1 / y\<rceil> - 1) = int k + 1"
    by (rule bitlen_eqI) (use lo hi in linarith)+
  then show ?thesis using y1 by (simp add: floor_log2_def)
qed

lemma floor_log2_eq:
  assumes "pow2 e \<le> y" and "y < pow2 (e + 1)"
  shows "floor_log2 y = e"
proof (cases "0 \<le> e")
  case True
  then have "floor_log2 y = int (nat e)"
    using assms by (intro floor_log2_nonneg) (simp_all add: pow2_def nat_add_distrib)
  then show ?thesis using True by simp
next
  case False
  define k where "k = nat (- e - 1)"
  have e: "e = - int (k + 1)" using False by (simp add: k_def)
  have n: "nat (int k + 1) = k + 1" by simp
  have a: "1 / 2 ^ (k + 1) \<le> y" using assms(1) unfolding e pow2_def by (simp add: n)
  have b: "y < 1 / 2 ^ k" using assms(2) unfolding e pow2_def
    by (cases k) (simp_all add: nat_add_distrib)
  show ?thesis unfolding e by (rule floor_log2_neg [OF a b])
qed

lemma round_double_eval:
  assumes "pow2 e \<le> \<bar>x\<bar>" and "\<bar>x\<bar> < pow2 (e + 1)"
  shows "round_double x = round_at e x"
proof -
  have "0 < pow2 e" by (simp add: pow2_def)
  then have "x \<noteq> 0" using assms(1) by auto
  then show ?thesis by (simp add: round_double_def floor_log2_eq [OF assms])
qed

text \<open>
  Rounding is symmetric and never gives a NaN, and the magnitude of a rounded number
  is not negative.
\<close>

lemma round_double_zero: "round_double 0 = Fin 0"
  by (simp add: round_double_def)

lemma pow2_pos: "0 < pow2 k"
  by (simp add: pow2_def)

lemma round_half_even_nonneg: "0 \<le> q \<Longrightarrow> 0 \<le> round_half_even q"
  by (simp add: round_half_even_def Let_def)

lemma mantissa_nonneg: "0 \<le> real_of_int (round_half_even (\<bar>x\<bar> / pow2 k)) * pow2 k"
proof -
  have "0 \<le> \<bar>x\<bar> / pow2 k" using pow2_pos [of k] by simp
  then have "0 \<le> round_half_even (\<bar>x\<bar> / pow2 k)" by (rule round_half_even_nonneg)
  then show ?thesis using pow2_pos [of k] by simp
qed

lemma abs_round_at:
  assumes "x \<noteq> 0"
  shows "f_abs (round_at e x) = round_at e \<bar>x\<bar>"
proof -
  define m where "m = real_of_int (round_half_even (\<bar>x\<bar> / pow2 (max e (- 1022) - 52))) *
      pow2 (max e (- 1022) - 52)"
  have m0: "0 \<le> m" unfolding m_def by (rule mantissa_nonneg)
  have 1: "round_at e x = (if pow2 1024 \<le> m then (if 0 < x then PInf else NInf)
       else Fin (if 0 < x then m else - m))"
    unfolding round_at_def Let_def m_def by (rule refl)
  have 2: "round_at e \<bar>x\<bar> = (if pow2 1024 \<le> m then PInf else Fin m)"
    unfolding round_at_def Let_def m_def using assms by simp
  show ?thesis unfolding 1 2 using m0 by simp
qed

lemma abs_round_double: "f_abs (round_double x) = round_double \<bar>x\<bar>"
  by (simp add: round_double_def abs_round_at)

lemma round_at_cases:
  "round_at e x = PInf \<or> round_at e x = NInf \<or> (\<exists>r. round_at e x = Fin r)"
  by (simp add: round_at_def Let_def)

lemma round_double_cases:
  "round_double x = PInf \<or> round_double x = NInf \<or> (\<exists>r. round_double x = Fin r)"
  using round_at_cases [of "floor_log2 \<bar>x\<bar>" x] by (simp add: round_double_def)

lemma round_double_not_nan: "round_double x \<noteq> NaN"
  using round_double_cases [of x] by auto

lemma abs_round_double_nonneg: "f_le (Fin 0) (f_abs (round_double x))"
  using round_double_cases [of x] by auto

text \<open>
  The doubles of the examples. The literal \<open>0.10\<close> is \<open>3602879701896397 / 2^55\<close>, a
  little above one tenth, and \<open>100 * 0.10\<close> rounds to 10. With the doubles of \<open>3.1\<close> and
  \<open>2.79\<close> the difference and the product with \<open>0.10\<close> round to the same double,
  \<open>0.31000000000000005\<close>, although the exact product is below the exact difference.
  Beyond the range of the doubles a result is infinite, and beyond \<open>2^53\<close> an integer is
  rounded.
\<close>

lemmas round_eval_defs = pow2_def round_at_def round_half_even_def Let_def

lemma default_sig_diff_frac_value:
  "default_sig_diff_frac = Fin (3602879701896397 / 36028797018963968)"
  unfolding default_sig_diff_frac_def
  by (subst round_double_eval [where e = "- 4"]) (simp_all add: round_eval_defs)

lemma round_double_small:
  "round_double 1 = Fin 1" "round_double 5 = Fin 5" "round_double 9 = Fin 9"
  "round_double 11 = Fin 11" "round_double 12 = Fin 12" "round_double 89 = Fin 89"
  "round_double 91 = Fin 91" "round_double 100 = Fin 100" "round_double (1 / 2) = Fin (1 / 2)"
proof -
  show "round_double 1 = Fin 1"
    by (subst round_double_eval [where e = 0]) (simp_all add: round_eval_defs)
  show "round_double 5 = Fin 5"
    by (subst round_double_eval [where e = 2]) (simp_all add: round_eval_defs)
  show "round_double 9 = Fin 9"
    by (subst round_double_eval [where e = 3]) (simp_all add: round_eval_defs)
  show "round_double 11 = Fin 11"
    by (subst round_double_eval [where e = 3]) (simp_all add: round_eval_defs)
  show "round_double 12 = Fin 12"
    by (subst round_double_eval [where e = 3]) (simp_all add: round_eval_defs)
  show "round_double 89 = Fin 89"
    by (subst round_double_eval [where e = 6]) (simp_all add: round_eval_defs)
  show "round_double 91 = Fin 91"
    by (subst round_double_eval [where e = 6]) (simp_all add: round_eval_defs)
  show "round_double 100 = Fin 100"
    by (subst round_double_eval [where e = 6]) (simp_all add: round_eval_defs)
  show "round_double (1 / 2) = Fin (1 / 2)"
    by (subst round_double_eval [where e = "- 1"]) (simp_all add: round_eval_defs)
qed

lemma threshold_of_100:
  "f_mul (Fin 100) default_sig_diff_frac = Fin 10"
  "f_mul (Fin 100) (f_neg default_sig_diff_frac) = Fin (- 10)"
proof -
  show "f_mul (Fin 100) default_sig_diff_frac = Fin 10"
    unfolding default_sig_diff_frac_value f_mul.simps
    by (subst round_double_eval [where e = 3]) (simp_all add: round_eval_defs)
  show "f_mul (Fin 100) (f_neg default_sig_diff_frac) = Fin (- 10)"
    unfolding default_sig_diff_frac_value f_neg.simps f_mul.simps
    by (subst round_double_eval [where e = 3]) (simp_all add: round_eval_defs)
qed

lemma rounded_operations_example:
  "round_double (31 / 10) = Fin (6980579422424269 / 2251799813685248)"
  "round_double (279 / 100) = Fin (3141260740090921 / 1125899906842624)"
  "f_sub (Fin (6980579422424269 / 2251799813685248)) (Fin (3141260740090921 / 1125899906842624))
     = Fin (698057942242427 / 2251799813685248)"
  "f_mul (Fin (6980579422424269 / 2251799813685248)) default_sig_diff_frac
     = Fin (698057942242427 / 2251799813685248)"
  "(6980579422424269 / 2251799813685248 :: real) * (3602879701896397 / 36028797018963968)
     < 6980579422424269 / 2251799813685248 - 3141260740090921 / 1125899906842624"
proof -
  show "round_double (31 / 10) = Fin (6980579422424269 / 2251799813685248)"
    by (subst round_double_eval [where e = 1]) (simp_all add: round_eval_defs)
  show "round_double (279 / 100) = Fin (3141260740090921 / 1125899906842624)"
    by (subst round_double_eval [where e = 1]) (simp_all add: round_eval_defs)
  show "f_sub (Fin (6980579422424269 / 2251799813685248)) (Fin (3141260740090921 / 1125899906842624))
     = Fin (698057942242427 / 2251799813685248)"
    unfolding f_sub.simps
    by (subst round_double_eval [where e = "- 2"]) (simp_all add: round_eval_defs)
  show "f_mul (Fin (6980579422424269 / 2251799813685248)) default_sig_diff_frac
     = Fin (698057942242427 / 2251799813685248)"
    unfolding default_sig_diff_frac_value f_mul.simps
    by (subst round_double_eval [where e = "- 2"]) (simp_all add: round_eval_defs)
  show "(6980579422424269 / 2251799813685248 :: real) * (3602879701896397 / 36028797018963968)
     < 6980579422424269 / 2251799813685248 - 3141260740090921 / 1125899906842624"
    by simp
qed

lemma overflow_example:
  "round_double (2 ^ 1024) = PInf" "round_double (2 ^ 53 + 1) = Fin (2 ^ 53)"
proof -
  show "round_double (2 ^ 1024) = PInf"
    by (subst round_double_eval [where e = 1024]) (simp_all add: round_eval_defs)
  show "round_double (2 ^ 53 + 1) = Fin (2 ^ 53)"
    by (subst round_double_eval [where e = 53]) (simp_all add: round_eval_defs)
qed

subsection \<open>Helper facts for leaves and containers\<close>

lemma coerces_type:
  assumes "test_string_to_float fl v = Inr (Some a)" "type_dict v = Inr t"
  shows "t \<in> {Some ''string'', Some ''number'', Some ''integer''}"
  using assms by (auto simp: test_string_to_float_def split: if_splits)

lemma coerces_leaf:
  assumes "t \<in> {Some ''string'', Some ''number'', Some ''integer''}"
    "u \<in> {Some ''string'', Some ''number'', Some ''integer''}"
  shows "container_cnt t u = 0"
  using assms by (auto simp: container_cnt_def)

lemma leaf_diff_numeric:
  assumes "type_dict ov = Inr ot" "type_dict nv = Inr nt"
    and "test_string_to_float fl ov = Inr (Some a)" "test_string_to_float fl nv = Inr (Some b)"
  shows "leaf_diff fl sdf (Some ov) (Some nv) ot nt st =
     (if f_le (f_abs (f_sub a b)) (f_abs (f_mul a sdf))
      then Inr (fst st, snd st @ [Value_difference_not_significant (DFloat (f_sub a b))])
      else Inr (Changed, snd st @ [Value_difference_significant (DFloat (f_sub a b))]))"
  using assms by (simp add: leaf_diff_def test_value_diff_def Let_def)

lemma threshold_nonneg_fraction:
  "0 \<le> f \<Longrightarrow> f_abs (f_mul a (Fin f)) = f_mul (f_abs a) (Fin f)"
  by (cases a) (auto simp: abs_mult abs_round_double)

lemma container_unfold:
  assumes "side_type old_keyval = Inr ot" "side_type new_keyval = Inr nt"
    and "0 < container_cnt ot nt"
  shows "Json_Dict_Compare_obj fl sdf tag old_keyval new_keyval =
     container_drilldown tag old_keyval new_keyval ot nt (first_checks old_keyval new_keyval ot nt)
       \<lparr>key_tag = tag, old_val = shown_val (side_val old_keyval) ot, old_val_type = ot,
        new_val = shown_val (side_val new_keyval) nt, new_val_type = nt, diff = [N_A]\<rparr>
       (map (\<lambda>(k, o', n'). Json_Dict_Compare_obj fl sdf k o' n')
            (object_subcalls tag old_keyval new_keyval ot nt))
       (map (\<lambda>(k, o', n'). Json_Dict_Compare_obj fl sdf k o' n')
            (array_subcalls tag old_keyval new_keyval ot nt))"
  by (subst Json_Dict_Compare_obj.simps) (simp add: assms Let_def)

lemma test_string_to_float_ok:
  assumes "type_dict v = Inr t"
  shows "test_string_to_float fl v =
     Inr (if t \<in> {Some ''string'', Some ''number'', Some ''integer''} then float_builtin fl v else None)"
  using assms by (simp add: test_string_to_float_def)

lemma test_value_diff_ok:
  assumes "type_dict ov = Inr ot" "type_dict nv = Inr nt"
  shows "\<not> isl (test_value_diff fl ov nv)"
  using assms
  by (simp add: test_value_diff_def test_string_to_float_ok [OF assms(1)]
      test_string_to_float_ok [OF assms(2)] del: insert_iff)

lemma extends_state_simps:
  "extends_state st st"
  "extends_state st (fst st, snd st @ ms)"
  "extends_state st (Changed, snd st @ ms)"
  "extends_state st (Changed, (snd st @ ms) @ ms')"
  "extends_state st (fst st, (snd st @ ms) @ ms')"
  by (simp_all add: extends_state_def)

lemma leaf_diff_result:
  assumes "type_dict ov = Inr ot" "type_dict nv = Inr nt"
  shows "case leaf_diff fl sdf (Some ov) (Some nv) ot' nt' st of
           Inl e \<Rightarrow> False | Inr st' \<Rightarrow> extends_state st st'"
proof -
  obtain flg dv where tvd: "test_value_diff fl ov nv = Inr (flg, dv)"
    using test_value_diff_ok [OF assms, of fl] by (cases "test_value_diff fl ov nv") auto
  obtain r where tsf: "test_string_to_float fl ov = Inr r"
    using test_string_to_float_ok [OF assms(1)] by simp
  show ?thesis
  proof (cases flg)
    case False
    then show ?thesis by (simp add: leaf_diff_def tvd extends_state_simps)
  next
    case True
    show ?thesis
    proof (cases r)
      case None
      then show ?thesis using True
        by (simp add: leaf_diff_def tvd tsf Let_def extends_state_simps)
    next
      case (Some a)
      then show ?thesis using True
        by (simp add: leaf_diff_def tvd tsf Let_def extends_state_simps)
    qed
  qed
qed


lemma extends_state_trans:
  assumes "extends_state a b" "extends_state b c"
  shows "extends_state a c"
proof -
  from assms obtain ms ms' where "snd b = snd a @ ms" "snd c = snd b @ ms'"
    unfolding extends_state_def by blast
  then have "snd c = snd a @ (ms @ ms')" by simp
  moreover have "fst a = Changed \<longrightarrow> fst c = Changed"
    using assms unfolding extends_state_def by blast
  ultimately show ?thesis unfolding extends_state_def by blast
qed

lemma object_step_extends: "extends_state st (object_step ot nt oks nks st)"
  by (simp add: object_step_def extends_state_def)

lemma array_step_extends: "extends_state st (array_step ot nt ol nl st)"
  by (simp add: array_step_def extends_state_def)

lemma object_summary_extends: "extends_state st (object_summary old_keyval new_keyval ot nt st)"
  unfolding object_summary_def using object_step_extends extends_state_simps(1)
  by (simp only: if_split) blast

lemma array_summary_extends: "extends_state st (array_summary old_keyval new_keyval ot nt st)"
  unfolding array_summary_def using array_step_extends extends_state_simps(1)
  by (simp only: if_split) blast

lemma merge_subs_changed:
  "merge_subs cd subs = Inr cd' \<Longrightarrow> set (changed cd) \<subseteq> set (changed cd')"
proof (induction subs arbitrary: cd)
  case Nil
  then show ?case by simp
next
  case (Cons r rest)
  show ?case
  proof (cases r)
    case (Inl e)
    with Cons.prems show ?thesis by simp
  next
    case (Inr sub)
    with Cons.prems have "merge_subs (extend_with cd (compare_dict sub)) rest = Inr cd'" by simp
    from Cons.IH [OF this] show ?thesis by (simp add: extend_with_def)
  qed
qed


lemma container_drilldown_fields:
  assumes "container_drilldown tag old_keyval new_keyval ot nt st vr object_subs array_subs = Inr obj"
  defines "st1 \<equiv> object_summary old_keyval new_keyval ot nt st"
  defines "st2 \<equiv> array_summary old_keyval new_keyval ot nt st1"
  shows "result_tag obj = fst st2" and "diff_msg_lt obj = snd st2"
    and "val_results obj = vr\<lparr>diff := snd st2\<rparr>"
  using assms(1) unfolding container_drilldown_def Let_def st1_def st2_def
  by (auto split: sum.splits)

lemma container_drilldown_record:
  assumes "container_drilldown tag old_keyval new_keyval ot nt st vr object_subs array_subs = Inr obj"
    and "fst (object_summary old_keyval new_keyval ot nt st) = Changed"
    and "fst (array_summary old_keyval new_keyval ot nt
               (object_summary old_keyval new_keyval ot nt st)) = Changed"
    and "(has_type ''object'' ot nt \<and> tag \<noteq> []) \<or> has_type ''array'' ot nt"
  shows "val_results obj \<in> set (changed (compare_dict obj))"
proof -
  define st1 where "st1 = object_summary old_keyval new_keyval ot nt st"
  define st2 where "st2 = array_summary old_keyval new_keyval ot nt st1"
  define vr2 where "vr2 = vr\<lparr>diff := snd st2\<rparr>"
  define cd1 where "cd1 = (if has_type ''object'' ot nt \<and> tag \<noteq> []
                 then append_to (fst st1) vr2 empty_compare_dict
                 else empty_compare_dict)"
  from assms(1) obtain cd2 cd4 where
    m1: "(if has_type ''object'' ot nt then merge_subs cd1 object_subs else Inr cd1) = Inr cd2"
    and m2: "(if has_type ''array'' ot nt
              then merge_subs (append_to (fst st2) vr2 cd2) array_subs else Inr cd2) = Inr cd4"
    and obj: "obj = \<lparr>compare_dict = cd4, result_tag = fst st2, diff_msg_lt = snd st2, val_results = vr2\<rparr>"
    unfolding container_drilldown_def Let_def st1_def st2_def vr2_def cd1_def
    by (auto split: sum.splits if_splits)
  have c1: "set (changed cd1) \<subseteq> set (changed cd2)"
    using m1 merge_subs_changed by (auto split: if_splits)
  have c2: "set (changed cd2) \<subseteq> set (changed cd4)"
    using m2 merge_subs_changed [of "append_to (fst st2) vr2 cd2" array_subs cd4]
    by (cases "has_type ''array'' ot nt") (auto simp: assms(3) [folded st1_def st2_def])
  from assms(4) show ?thesis
  proof
    assume "has_type ''array'' ot nt"
    then have "merge_subs (append_to Changed vr2 cd2) array_subs = Inr cd4"
      using m2 assms(3) [folded st1_def st2_def] by simp
    from merge_subs_changed [OF this] show ?thesis by (simp add: obj)
  next
    assume a: "has_type ''object'' ot nt \<and> tag \<noteq> []"
    then have "vr2 \<in> set (changed cd1)"
      unfolding cd1_def using assms(2) [folded st1_def] by (simp add: empty_compare_dict_def)
    with c1 c2 show ?thesis by (auto simp: obj)
  qed
qed


lemma extends_changed:
  assumes "extends_state (Changed, [m]) st'"
  shows "fst st' = Changed" and "hd (snd st') = m"
  using assms unfolding extends_state_def by auto

lemma has_type_container_cnt:
  "0 < container_cnt ot nt \<longleftrightarrow> has_type ''object'' ot nt \<or> has_type ''array'' ot nt"
  by (auto simp: container_cnt_def has_type_def)

subsection \<open>Helper facts for the comparison of a tree with itself\<close>

lemma merge_only_same:
  assumes "\<forall>r \<in> set subs. self_same r" "only_same cd"
  shows "case merge_subs cd subs of Inl e \<Rightarrow> False | Inr cd' \<Rightarrow> only_same cd'"
  using assms
proof (induction subs arbitrary: cd)
  case Nil
  then show ?case by simp
next
  case (Cons r rest)
  from Cons.prems(1) obtain sub where r: "r = Inr sub" and s: "only_same (compare_dict sub)"
    by (cases r) (auto simp: self_same_def)
  have "only_same (extend_with cd (compare_dict sub))"
    using s Cons.prems(2) by (simp add: only_same_def extend_with_def)
  with Cons.IH [of "extend_with cd (compare_dict sub)"] Cons.prems(1) show ?case
    by (simp add: r)
qed

lemma self_leaf_numeric:
  assumes "type_dict v = Inr t" "test_string_to_float fl v = Inr (Some (Fin x))"
  shows "self_same (Json_Dict_Compare_obj fl (Fin f) tag (Some v) (Some v))"
proof -
  have leaf: "container_cnt t t = 0"
    by (rule coerces_leaf [OF coerces_type [OF assms(2,1)] coerces_type [OF assms(2,1)]])
  have unfold: "Json_Dict_Compare_obj fl (Fin f) tag (Some v) (Some v) =
     leaf_node fl (Fin f) (Some v) (Some v) t t (first_checks (Some v) (Some v) t t)
       \<lparr>key_tag = tag, old_val = shown_val (side_val (Some v)) t, old_val_type = t,
        new_val = shown_val (side_val (Some v)) t, new_val_type = t, diff = [N_A]\<rparr>"
    by (rule leaf_unfold) (simp_all add: assms leaf)
  show ?thesis
    unfolding unfold leaf_node_def leaf_diff_numeric [OF assms(1) assms(1) assms(2) assms(2)]
    by (simp add: first_checks_def self_same_def only_same_def empty_compare_dict_def
        round_double_zero abs_round_double_nonneg)
qed

lemma self_leaf_other:
  assumes "type_dict v = Inr t" "container_cnt t t = 0" "test_string_to_float fl v = Inr None"
  shows "self_same (Json_Dict_Compare_obj fl sdf tag (Some v) (Some v))"
proof -
  have unfold: "Json_Dict_Compare_obj fl sdf tag (Some v) (Some v) =
     leaf_node fl sdf (Some v) (Some v) t t (first_checks (Some v) (Some v) t t)
       \<lparr>key_tag = tag, old_val = shown_val (side_val (Some v)) t, old_val_type = t,
        new_val = shown_val (side_val (Some v)) t, new_val_type = t, diff = [N_A]\<rparr>"
    by (rule leaf_unfold) (simp_all add: assms)
  show ?thesis
    unfolding unfold leaf_node_def
    by (simp add: leaf_diff_def test_value_diff_def assms first_checks_def
        self_same_def only_same_def empty_compare_dict_def)
qed


lemma only_same_append: "only_same cd \<Longrightarrow> only_same (append_to Same r cd)"
  by (simp add: only_same_def)

lemma only_same_empty: "only_same empty_compare_dict"
  by (simp add: only_same_def empty_compare_dict_def)

lemma drilldown_self:
  assumes os: "\<forall>r \<in> set object_subs. self_same r" and as: "\<forall>r \<in> set array_subs. self_same r"
    and s1: "fst (object_summary old_keyval new_keyval ot nt st) = Same"
    and s2: "fst (array_summary old_keyval new_keyval ot nt
                  (object_summary old_keyval new_keyval ot nt st)) = Same"
  shows "self_same (container_drilldown tag old_keyval new_keyval ot nt st vr object_subs array_subs)"
proof -
  define st1 where "st1 = object_summary old_keyval new_keyval ot nt st"
  define st2 where "st2 = array_summary old_keyval new_keyval ot nt st1"
  define vr2 where "vr2 = vr\<lparr>diff := snd st2\<rparr>"
  define cd1 where "cd1 = (if has_type ''object'' ot nt \<and> tag \<noteq> []
                 then append_to (fst st1) vr2 empty_compare_dict
                 else empty_compare_dict)"
  have c1: "only_same cd1"
    unfolding cd1_def using s1 [folded st1_def] only_same_empty only_same_append by simp
  obtain cd2 where m1: "(if has_type ''object'' ot nt then merge_subs cd1 object_subs else Inr cd1) = Inr cd2"
    and c2: "only_same cd2"
  proof (cases "has_type ''object'' ot nt")
    case True
    with merge_only_same [OF os c1] that show ?thesis
      by (cases "merge_subs cd1 object_subs") simp_all
  next
    case False
    with c1 that show ?thesis by simp
  qed
  define cd3 where "cd3 = (if has_type ''array'' ot nt then append_to (fst st2) vr2 cd2 else cd2)"
  have c3: "only_same cd3"
    unfolding cd3_def using s2 [folded st1_def st2_def] c2 only_same_append by simp
  obtain cd4 where m2: "(if has_type ''array'' ot nt then merge_subs cd3 array_subs else Inr cd3) = Inr cd4"
    and c4: "only_same cd4"
  proof (cases "has_type ''array'' ot nt")
    case True
    with merge_only_same [OF as c3] that show ?thesis
      by (cases "merge_subs cd3 array_subs") simp_all
  next
    case False
    with c3 that show ?thesis by simp
  qed
  have "container_drilldown tag old_keyval new_keyval ot nt st vr object_subs array_subs =
      Inr \<lparr>compare_dict = cd4, result_tag = fst st2, diff_msg_lt = snd st2, val_results = vr2\<rparr>"
    unfolding container_drilldown_def Let_def
    unfolding st1_def [symmetric] st2_def [symmetric] vr2_def [symmetric] cd1_def [symmetric] m1
    using m2 [unfolded cd3_def] by simp
  then show ?thesis
    using c4 s2 [folded st1_def st2_def] by (simp add: self_same_def)
qed

lemma self_array_subcalls:
  assumes "(k, o', n') \<in> set (array_subcalls tag (Some (PList xs)) (Some (PList xs)) t t)"
  shows "\<exists>v \<in> set xs. o' = Some v \<and> n' = Some v"
proof -
  from array_subcalls_cnt [OF assms] obtain cnt where
    cnt: "cnt < lt_len (Some (PList xs)) t"
    and o': "o' = (if cnt < lt_len (Some (PList xs)) t then Some (list_items (side_val (Some (PList xs))) ! cnt) else None)"
    and n': "n' = (if cnt < lt_len (Some (PList xs)) t then Some (list_items (side_val (Some (PList xs))) ! cnt) else None)"
    by blast
  from cnt have "cnt < length xs" by (simp add: lt_len_def split: if_splits)
  with cnt o' n' show ?thesis by simp
qed

lemma self_object_subcalls:
  assumes "(k, o', n') \<in> set (object_subcalls tag (Some (PDict d)) (Some (PDict d)) t t)"
  shows "\<exists>v \<in> set (map snd d). o' = Some v \<and> n' = Some v"
proof -
  from object_subcalls_key [OF assms] obtain key where
    key: "key \<in> set (val_keys (Some (PDict d)) t)"
    and o': "o' = (if t = Some ''object'' then map_of (dict_items (side_val (Some (PDict d)))) key else None)"
    and n': "n' = (if t = Some ''object'' then map_of (dict_items (side_val (Some (PDict d)))) key else None)"
    by blast
  from val_keys_dom [OF key] obtain v where t: "t = Some ''object''" and v: "map_of d key = Some v"
    by auto
  from v have "(key, v) \<in> set d" by (rule map_of_SomeD)
  then have "v \<in> set (map snd d)" by force
  with o' n' t v show ?thesis by simp
qed


lemma self_summary_array:
  "fst (array_summary (Some (PList xs)) (Some (PList xs)) (Some ''array'') (Some ''array'')
        (object_summary (Some (PList xs)) (Some (PList xs)) (Some ''array'') (Some ''array'')
          (first_checks (Some (PList xs)) (Some (PList xs)) (Some ''array'') (Some ''array'')))) = Same"
  by (simp add: array_summary_def object_summary_def has_type_def array_step_def first_checks_def)

lemma self_summary_object:
  "fst (array_summary (Some (PDict d)) (Some (PDict d)) (Some ''object'') (Some ''object'')
        (object_summary (Some (PDict d)) (Some (PDict d)) (Some ''object'') (Some ''object'')
          (first_checks (Some (PDict d)) (Some (PDict d)) (Some ''object'') (Some ''object'')))) = Same"
  "fst (object_summary (Some (PDict d)) (Some (PDict d)) (Some ''object'') (Some ''object'')
          (first_checks (Some (PDict d)) (Some (PDict d)) (Some ''object'') (Some ''object''))) = Same"
  by (simp_all add: array_summary_def object_summary_def has_type_def object_step_def first_checks_def)

lemma self_same_all:
  assumes "finite_numbers fl t"
  shows "self_same (Json_Dict_Compare_obj fl (Fin f) tag (Some t) (Some t))"
  using assms
proof (induction t arbitrary: tag)
  case PNone
  show ?case
    by (rule self_leaf_other [of PNone None]) (simp_all add: container_cnt_def test_string_to_float_def)
next
  case (PBool b)
  show ?case
    by (rule self_leaf_other [of "PBool b" "Some ''boolean''"])
       (simp_all add: container_cnt_def test_string_to_float_def)
next
  case (PInt i)
  show ?case
  proof (cases "round_double (of_int i)")
    case (Fin r)
    then show ?thesis
      using self_leaf_numeric [of "PInt i" "Some ''integer''" fl r]
      by (simp add: test_string_to_float_def)
  qed (use self_leaf_other [of "PInt i" "Some ''integer''" fl] in
        \<open>simp_all add: container_cnt_def test_string_to_float_def\<close>)
next
  case (PLong i)
  then show ?case by simp
next
  case (PFloat x)
  then obtain r where "x = Fin r" by (cases x) simp_all
  then show ?case
    using self_leaf_numeric [of "PFloat x" "Some ''number''" fl r]
    by (simp add: test_string_to_float_def)
next
  case (PStr s)
  show ?case
  proof (cases "fl s")
    case None
    then show ?thesis
      using self_leaf_other [of "PStr s" "Some ''string''" fl]
      by (simp add: container_cnt_def test_string_to_float_def)
  next
    case (Some x)
    with PStr obtain r where "x = Fin r" by (cases x) simp_all
    with Some show ?thesis
      using self_leaf_numeric [of "PStr s" "Some ''string''" fl r]
      by (simp add: test_string_to_float_def)
  qed
next
  case (PList xs)
  have sides: "side_type (Some (PList xs)) = Inr (Some ''array'')" by simp
  have pos: "0 < container_cnt (Some ''array'') (Some ''array'')" by (simp add: container_cnt_def)
  have kids: "\<forall>r \<in> set (map (\<lambda>(k, o', n'). Json_Dict_Compare_obj fl (Fin f) k o' n')
       (array_subcalls tag (Some (PList xs)) (Some (PList xs)) (Some ''array'') (Some ''array''))).
       self_same r"
  proof
    fix r assume "r \<in> set (map (\<lambda>(k, o', n'). Json_Dict_Compare_obj fl (Fin f) k o' n')
       (array_subcalls tag (Some (PList xs)) (Some (PList xs)) (Some ''array'') (Some ''array'')))"
    then obtain k o' n' where
      mem: "(k, o', n') \<in> set (array_subcalls tag (Some (PList xs)) (Some (PList xs)) (Some ''array'') (Some ''array''))"
      and r: "r = Json_Dict_Compare_obj fl (Fin f) k o' n'" by auto
    from self_array_subcalls [OF mem] obtain v where v: "v \<in> set xs" "o' = Some v" "n' = Some v"
      by blast
    from PList.prems v(1) have "finite_numbers fl v" by (simp add: list_all_iff)
    from PList.IH [OF v(1) this] show "self_same r" by (simp add: r v)
  qed
  have nokids: "\<forall>r \<in> set (map (\<lambda>(k, o', n'). Json_Dict_Compare_obj fl (Fin f) k o' n')
       (object_subcalls tag (Some (PList xs)) (Some (PList xs)) (Some ''array'') (Some ''array''))).
       self_same r"
    by (simp add: object_subcalls_def has_type_def)
  show ?case
    unfolding container_unfold [OF sides sides pos]
    by (rule drilldown_self [OF nokids kids])
       (simp_all add: self_summary_array, simp add: object_summary_def has_type_def first_checks_def)
next
  case (PDict d)
  have sides: "side_type (Some (PDict d)) = Inr (Some ''object'')" by simp
  have pos: "0 < container_cnt (Some ''object'') (Some ''object'')" by (simp add: container_cnt_def)
  have kids: "\<forall>r \<in> set (map (\<lambda>(k, o', n'). Json_Dict_Compare_obj fl (Fin f) k o' n')
       (object_subcalls tag (Some (PDict d)) (Some (PDict d)) (Some ''object'') (Some ''object''))).
       self_same r"
  proof
    fix r assume "r \<in> set (map (\<lambda>(k, o', n'). Json_Dict_Compare_obj fl (Fin f) k o' n')
       (object_subcalls tag (Some (PDict d)) (Some (PDict d)) (Some ''object'') (Some ''object'')))"
    then obtain k o' n' where
      mem: "(k, o', n') \<in> set (object_subcalls tag (Some (PDict d)) (Some (PDict d)) (Some ''object'') (Some ''object''))"
      and r: "r = Json_Dict_Compare_obj fl (Fin f) k o' n'" by auto
    from self_object_subcalls [OF mem] obtain v where v: "v \<in> set (map snd d)" "o' = Some v" "n' = Some v"
      by blast
    from v(1) obtain p where p: "p \<in> set d" "v = snd p" by auto
    have sn: "v \<in> Basic_BNFs.snds p" unfolding p(2) by (cases p) simp
    from PDict.prems p have "finite_numbers fl v" by (simp add: list_all_iff)
    from PDict.IH [OF p(1) sn this] show "self_same r" by (simp add: r v)
  qed
  have nokids: "\<forall>r \<in> set (map (\<lambda>(k, o', n'). Json_Dict_Compare_obj fl (Fin f) k o' n')
       (array_subcalls tag (Some (PDict d)) (Some (PDict d)) (Some ''object'') (Some ''object''))).
       self_same r"
    by (simp add: array_subcalls_def has_type_def)
  show ?case
    unfolding container_unfold [OF sides sides pos]
    by (rule drilldown_self [OF kids nokids]) (simp_all add: self_summary_object)
qed

subsection \<open>Helper facts for runs that return\<close>

lemma side_type_no_long: "side_no_long s \<Longrightarrow> \<not> isl (side_type s)"
  by (cases s; cases "the s") simp_all

lemma side_val_type_ok: "side_type s = Inr t \<Longrightarrow> type_dict (side_val s) = Inr (if s = None then Some ''string'' else t)"
  by (cases s) simp_all

lemma leaf_diff_total:
  assumes "side_type old_keyval = Inr ot" "side_type new_keyval = Inr nt"
  shows "\<not> isl (leaf_diff fl sdf old_keyval new_keyval ot' nt' st)"
proof -
  note to = side_val_type_ok [OF assms(1)] and tn = side_val_type_ok [OF assms(2)]
  obtain flg dv where tvd: "test_value_diff fl (side_val old_keyval) (side_val new_keyval) = Inr (flg, dv)"
    using test_value_diff_ok [OF to tn, of fl]
    by (cases "test_value_diff fl (side_val old_keyval) (side_val new_keyval)") auto
  obtain r where tsf: "test_string_to_float fl (side_val old_keyval) = Inr r"
    using test_string_to_float_ok [OF to] by simp
  show ?thesis
    by (cases r) (simp_all add: leaf_diff_def tvd tsf Let_def)
qed

lemma merge_subs_total:
  "\<forall>r \<in> set subs. \<not> isl r \<Longrightarrow> \<not> isl (merge_subs cd subs)"
proof (induction subs arbitrary: cd)
  case Nil
  then show ?case by simp
next
  case (Cons r rest)
  then show ?case by (cases r) simp_all
qed

lemma container_drilldown_total:
  assumes "\<forall>r \<in> set object_subs. \<not> isl r" "\<forall>r \<in> set array_subs. \<not> isl r"
  shows "\<not> isl (container_drilldown tag old_keyval new_keyval ot nt st vr object_subs array_subs)"
proof -
  have 1: "\<not> isl (merge_subs cd object_subs)" for cd
    by (rule merge_subs_total [OF assms(1)])
  have 2: "\<not> isl (merge_subs cd array_subs)" for cd
    by (rule merge_subs_total [OF assms(2)])
  show ?thesis
    unfolding container_drilldown_def Let_def
    using 1 2 by (auto split: sum.splits simp: isl_def)
qed

lemma object_subcalls_no_long:
  assumes "(k, o', n') \<in> set (object_subcalls tag old_keyval new_keyval ot nt)"
    and "side_no_long old_keyval" "side_no_long new_keyval"
  shows "side_no_long o' \<and> side_no_long n'"
proof -
  have *: "side_no_long (map_of (dict_items (side_val s)) key)" if "side_no_long s" for s key
  proof (cases "map_of (dict_items (side_val s)) key")
    case (Some v)
    then have m: "(key, v) \<in> set (dict_items (side_val s))" by (rule map_of_SomeD)
    then obtain w where s: "s = Some w" by (cases s) auto
    with m obtain d where w: "w = PDict d" by (cases w) auto
    from m s w have "(key, v) \<in> set d" by simp
    with that s w have "no_long v" by (auto simp: list_all_iff)
    with Some show ?thesis by simp
  qed simp
  from object_subcalls_key [OF assms(1)] obtain key where
    "o' = (if ot = Some ''object'' then map_of (dict_items (side_val old_keyval)) key else None)"
    "n' = (if nt = Some ''object'' then map_of (dict_items (side_val new_keyval)) key else None)"
    by blast
  with * [OF assms(2)] * [OF assms(3)] show ?thesis by simp
qed

lemma array_subcalls_no_long:
  assumes "(k, o', n') \<in> set (array_subcalls tag old_keyval new_keyval ot nt)"
    and "side_no_long old_keyval" "side_no_long new_keyval"
  shows "side_no_long o' \<and> side_no_long n'"
proof -
  have *: "side_no_long (if cnt < lt_len s t then Some (list_items (side_val s) ! cnt) else None)"
    if "side_no_long s" for s t cnt
  proof (cases "cnt < lt_len s t")
    case True
    then have c: "cnt < length (list_items (side_val s))" by (simp add: lt_len_def split: if_splits)
    then obtain w where s: "s = Some w" by (cases s) auto
    with c obtain xs where w: "w = PList xs" by (cases w) auto
    from c s w have "xs ! cnt \<in> set xs" by simp
    with that s w have "no_long (xs ! cnt)" by (simp add: list_all_iff)
    with True s w show ?thesis by simp
  qed simp
  from array_subcalls_cnt [OF assms(1)] obtain cnt where
    "o' = (if cnt < lt_len old_keyval ot then Some (list_items (side_val old_keyval) ! cnt) else None)"
    "n' = (if cnt < lt_len new_keyval nt then Some (list_items (side_val new_keyval) ! cnt) else None)"
    by blast
  with * [OF assms(2)] * [OF assms(3)] show ?thesis by simp
qed

lemma comparison_total_without_long:
  assumes "side_no_long old_keyval" "side_no_long new_keyval"
  shows "\<not> isl (Json_Dict_Compare_obj fl sdf tag old_keyval new_keyval)"
  using assms
proof (induction fl sdf tag old_keyval new_keyval rule: Json_Dict_Compare_obj.induct)
  case (1 fl sdf tag old_keyval new_keyval)
  obtain ot where ot: "side_type old_keyval = Inr ot"
    using side_type_no_long [OF "1.prems"(1)] by (cases "side_type old_keyval") auto
  obtain nt where nt: "side_type new_keyval = Inr nt"
    using side_type_no_long [OF "1.prems"(2)] by (cases "side_type new_keyval") auto
  show ?case
  proof (cases "0 < container_cnt ot nt")
    case False
    then have "container_cnt ot nt = 0" by simp
    from leaf_unfold [OF ot nt this] leaf_diff_total [OF ot nt] show ?thesis
      by (auto simp: leaf_node_def isl_def split: sum.splits)
  next
    case True
    have os: "\<forall>r \<in> set (map (\<lambda>(k, o', n'). Json_Dict_Compare_obj fl sdf k o' n')
            (object_subcalls tag old_keyval new_keyval ot nt)). \<not> isl r"
    proof
      fix r assume "r \<in> set (map (\<lambda>(k, o', n'). Json_Dict_Compare_obj fl sdf k o' n')
            (object_subcalls tag old_keyval new_keyval ot nt))"
      then obtain k o' n' where mem: "(k, o', n') \<in> set (object_subcalls tag old_keyval new_keyval ot nt)"
        and r: "r = Json_Dict_Compare_obj fl sdf k o' n'" by auto
      from object_subcalls_no_long [OF mem "1.prems"] have "side_no_long o'" "side_no_long n'" by simp_all
      from "1.IH"(1) [OF ot nt refl refl True mem refl refl this] show "\<not> isl r" by (simp add: r)
    qed
    have as: "\<forall>r \<in> set (map (\<lambda>(k, o', n'). Json_Dict_Compare_obj fl sdf k o' n')
            (array_subcalls tag old_keyval new_keyval ot nt)). \<not> isl r"
    proof
      fix r assume "r \<in> set (map (\<lambda>(k, o', n'). Json_Dict_Compare_obj fl sdf k o' n')
            (array_subcalls tag old_keyval new_keyval ot nt))"
      then obtain k o' n' where mem: "(k, o', n') \<in> set (array_subcalls tag old_keyval new_keyval ot nt)"
        and r: "r = Json_Dict_Compare_obj fl sdf k o' n'" by auto
      from array_subcalls_no_long [OF mem "1.prems"] have "side_no_long o'" "side_no_long n'" by simp_all
      from "1.IH"(2) [OF ot nt refl refl True mem refl refl this] show "\<not> isl r" by (simp add: r)
    qed
    show ?thesis
      unfolding container_unfold [OF ot nt True]
      by (rule container_drilldown_total [OF os as])
  qed
qed

subsection \<open>Comparing a tree with itself\<close>

text \<open>
  On trees whose numbers are finite the comparison of a tree with itself finds no
  difference. For every tree without a \<open>long\<close> whose floats are finite and whose strings
  either are no number for \<open>float\<close> or convert to a finite one, and every finite
  significance fraction, the constructor returns a result whose buckets \<open>changed\<close>,
  \<open>new\<close> and \<open>dropped\<close> are empty: every record is in \<open>same\<close>. Booleans and \<open>None\<close> are
  among the leaves; they take the \<open>Cannot compare values\<close> path, which leaves the tag
  \<open>same\<close>.
\<close>

theorem self_diff_identity:
  assumes "finite_numbers fl t"
  shows "\<exists>obj. Json_Dict_Compare_obj fl (Fin f) tag (Some t) (Some t) = Inr obj
     \<and> result_tag obj = Same
     \<and> changed (compare_dict obj) = [] \<and> new (compare_dict obj) = []
     \<and> dropped (compare_dict obj) = []"
  using self_same_all [OF assms, of f tag]
  by (cases "Json_Dict_Compare_obj fl (Fin f) tag (Some t) (Some t)")
     (simp_all add: self_same_def only_same_def)

text \<open>A tree with an array, a boolean, a null, strings and numbers, compared with itself.\<close>

theorem self_diff_identity_witness:
  "finite_numbers float_fragment
     (PDict [(''a'', PList [PInt 1, PBool True, PNone, PStr ''x'', PStr ''12'']), (''b'', PFloat (Fin (5 / 2)))])
   \<and> (\<exists>obj. Json_Dict_Compare_obj float_fragment (Fin (1 / 10)) []
         (Some (PDict [(''a'', PList [PInt 1, PBool True, PNone, PStr ''x'', PStr ''12'']), (''b'', PFloat (Fin (5 / 2)))]))
         (Some (PDict [(''a'', PList [PInt 1, PBool True, PNone, PStr ''x'', PStr ''12'']), (''b'', PFloat (Fin (5 / 2)))])) = Inr obj
     \<and> result_tag obj = Same
     \<and> changed (compare_dict obj) = [] \<and> new (compare_dict obj) = []
     \<and> dropped (compare_dict obj) = [])"
proof -
  have h: "finite_numbers float_fragment
     (PDict [(''a'', PList [PInt 1, PBool True, PNone, PStr ''x'', PStr ''12'']), (''b'', PFloat (Fin (5 / 2)))])"
    by (simp add: float_fragment_def digit_strings_def digits_value_def round_double_small)
  from self_diff_identity [OF h, of "1 / 10" "[]"] h show ?thesis by blast
qed

lemma null_cannot_compare:
  "diff_msg_lt (projr (Json_Dict_Compare_obj fl sdf tag (Some PNone) (Some PNone))) =
     [ValueType_unchanged None, Cannot_compare_values]"
  by (simp add: leaf_unfold [of "Some PNone" None "Some PNone" None] leaf_defs)

text \<open>
  Claim C1 at the tree \<open>{"a": "nan"}\<close> compared with itself, fraction 0.10. The string
  \<open>"nan"\<close> converts (\<open>float('nan')\<close> is a NaN), the difference of a NaN with itself is a
  NaN, so is the threshold, and the test \<open>abs(diff_val) <= old_val_sig_diff\<close> is false
  for a NaN: the leaf \<open>a\<close>, unchanged between the two sides, is filed under \<open>changed\<close>
  with the message of a significant difference, and \<open>same\<close> is empty. An infinite
  value behaves alike (\<open>inf - inf\<close> is a NaN).
\<close>

theorem self_diff_nan_string_changed:
  "map key_tag (changed (compare_dict (projr (Json_Dict_Compare_obj float_fragment (Fin (1 / 10)) []
      (Some (PDict [(''a'', PStr ''nan'')])) (Some (PDict [(''a'', PStr ''nan'')])))))) = [''a'']
   \<and> same (compare_dict (projr (Json_Dict_Compare_obj float_fragment (Fin (1 / 10)) []
      (Some (PDict [(''a'', PStr ''nan'')])) (Some (PDict [(''a'', PStr ''nan'')]))))) = []"
  by code_simp

subsection \<open>Integers beyond the machine range\<close>

text \<open>
  Claim C2 at the input \<open>{"n": 9223372036854775808}\<close> on both sides: \<open>json.load\<close> reads
  the number as a \<open>long\<close>, \<open>type_dict\<close> has no entry for its type, and the constructor
  of the child \<open>n\<close> raises \<open>KeyError\<close>; no result is returned.
\<close>

theorem long_integer_raises:
  "Json_Dict_Compare_obj float_fragment (Fin (1 / 10)) []
     (Some (PDict [(''n'', PLong 9223372036854775808)]))
     (Some (PDict [(''n'', PLong 9223372036854775808)])) = Inl KeyError"
  by code_simp

text \<open>
  The \<open>long\<close> is the only value on which the model of the constructor raises: for
  sides without one the run returns (\<open>comparison_total_without_long\<close>).
\<close>

subsection \<open>The numeric rule of a leaf\<close>

text \<open>
  Claim C3, as the code has it. On a leaf with both sides present whose values both
  convert to a float (\<open>a\<close> for the old side, \<open>b\<close> for the new one) the constructor
  returns; the difference is the float \<open>a - b\<close>, the threshold is \<open>abs(a * sig_diff_frac)\<close>,
  the magnitude of the float product (both operations round to a double, overflow to
  an infinity and propagate NaNs), and the node is \<open>same\<close> exactly when the two types
  agree and the magnitude of the difference is at most the threshold, otherwise
  \<open>changed\<close>. The record is filed once, under that category, and its last message
  carries the difference. For a finite fraction that is not negative this is the rule
  of the specification, whose threshold is the magnitude of the old value times the
  fraction, in the arithmetic of floats.
\<close>

theorem leaf_numeric_significance:
  assumes "type_dict ov = Inr ot" "type_dict nv = Inr nt"
    and "test_string_to_float fl ov = Inr (Some a)" "test_string_to_float fl nv = Inr (Some b)"
  shows "\<exists>obj. Json_Dict_Compare_obj fl sdf tag (Some ov) (Some nv) = Inr obj
     \<and> result_tag obj =
         (if ot = nt \<and> f_le (f_abs (f_sub a b)) (f_abs (f_mul a sdf)) then Same else Changed)
     \<and> compare_dict obj = append_to (result_tag obj) (val_results obj) empty_compare_dict
     \<and> last (diff (val_results obj)) =
         (if f_le (f_abs (f_sub a b)) (f_abs (f_mul a sdf))
          then Value_difference_not_significant (DFloat (f_sub a b))
          else Value_difference_significant (DFloat (f_sub a b)))
     \<and> (\<forall>f. sdf = Fin f \<and> 0 \<le> f \<longrightarrow> result_tag obj = spec_leaf_category ot nt a b sdf)"
proof -
  have leaf: "container_cnt ot nt = 0"
    by (rule coerces_leaf [OF coerces_type [OF assms(3) assms(1)] coerces_type [OF assms(4) assms(2)]])
  have unfold: "Json_Dict_Compare_obj fl sdf tag (Some ov) (Some nv) =
     leaf_node fl sdf (Some ov) (Some nv) ot nt (first_checks (Some ov) (Some nv) ot nt)
       \<lparr>key_tag = tag, old_val = shown_val (side_val (Some ov)) ot, old_val_type = ot,
        new_val = shown_val (side_val (Some nv)) nt, new_val_type = nt, diff = [N_A]\<rparr>"
    by (rule leaf_unfold) (simp_all add: assms leaf)
  have st: "first_checks (Some ov) (Some nv) ot nt =
      (if ot \<noteq> nt then (Changed, [ValueType_changed ot nt]) else (Same, [ValueType_unchanged ot]))"
    by (simp add: first_checks_def)
  define vr where "vr = \<lparr>key_tag = tag, old_val = shown_val (side_val (Some ov)) ot, old_val_type = ot,
        new_val = shown_val (side_val (Some nv)) nt, new_val_type = nt, diff = [N_A]\<rparr>"
  define sig where "sig = f_le (f_abs (f_sub a b)) (f_abs (f_mul a sdf))"
  define st0 where "st0 = first_checks (Some ov) (Some nv) ot nt"
  define st1 where "st1 = (if sig
      then (fst st0, snd st0 @ [Value_difference_not_significant (DFloat (f_sub a b))])
      else (Changed, snd st0 @ [Value_difference_significant (DFloat (f_sub a b))]))"
  have ld: "leaf_diff fl sdf (Some ov) (Some nv) ot nt st0 = Inr st1"
    unfolding leaf_diff_numeric [OF assms] st1_def sig_def by simp
  have res: "Json_Dict_Compare_obj fl sdf tag (Some ov) (Some nv) =
      Inr \<lparr>compare_dict = append_to (fst st1) (vr\<lparr>diff := snd st1\<rparr>) empty_compare_dict,
           result_tag = fst st1, diff_msg_lt = snd st1, val_results = vr\<lparr>diff := snd st1\<rparr>\<rparr>"
    unfolding unfold leaf_node_def vr_def [symmetric] st0_def [symmetric] ld by simp
  have tag1: "fst st1 = (if ot = nt \<and> sig then Same else Changed)"
    unfolding st1_def st0_def st by simp
  have last1: "last (snd st1) = (if sig
          then Value_difference_not_significant (DFloat (f_sub a b))
          else Value_difference_significant (DFloat (f_sub a b)))"
    unfolding st1_def by simp
  have spec: "\<forall>f. sdf = Fin f \<and> 0 \<le> f \<longrightarrow>
      (if ot = nt \<and> sig then Same else Changed) = spec_leaf_category ot nt a b sdf"
    unfolding sig_def spec_leaf_category_def using threshold_nonneg_fraction [of _ a] by auto
  show ?thesis
    unfolding res sig_def [symmetric] using tag1 last1 spec by simp

qed

text \<open>
  The boundary of the specification: with the default fraction 0.10 and the old value
  100 the threshold is \<open>100 * 0.10 = 10.0\<close>; the new value 91 stays \<open>same\<close> and the new
  value 89 is \<open>changed\<close>.
\<close>

theorem leaf_numeric_significance_witness:
  "type_dict (PInt 100) = Inr (Some ''integer'') \<and> type_dict (PInt 91) = Inr (Some ''integer'')
   \<and> type_dict (PInt 89) = Inr (Some ''integer'')
   \<and> test_string_to_float float_fragment (PInt 100) = Inr (Some (Fin 100))
   \<and> test_string_to_float float_fragment (PInt 91) = Inr (Some (Fin 91))
   \<and> test_string_to_float float_fragment (PInt 89) = Inr (Some (Fin 89))
   \<and> f_abs (f_mul (Fin 100) default_sig_diff_frac) = Fin 10
   \<and> result_tag (projr (Json_Dict_Compare_obj float_fragment default_sig_diff_frac ''a''
         (Some (PInt 100)) (Some (PInt 91)))) = Same
   \<and> result_tag (projr (Json_Dict_Compare_obj float_fragment default_sig_diff_frac ''a''
         (Some (PInt 100)) (Some (PInt 89)))) = Changed"
proof -
  have t: "type_dict (PInt 100) = Inr (Some ''integer'')" "type_dict (PInt 91) = Inr (Some ''integer'')"
    "type_dict (PInt 89) = Inr (Some ''integer'')" by simp_all
  have c: "test_string_to_float float_fragment (PInt 100) = Inr (Some (Fin 100))"
    "test_string_to_float float_fragment (PInt 91) = Inr (Some (Fin 91))"
    "test_string_to_float float_fragment (PInt 89) = Inr (Some (Fin 89))"
    by (simp_all add: test_string_to_float_def round_double_small)
  have d: "f_sub (Fin 100) (Fin 91) = Fin 9" "f_sub (Fin 100) (Fin 89) = Fin 11"
    by (simp_all add: round_double_small)
  have th: "f_abs (f_mul (Fin 100) default_sig_diff_frac) = Fin 10"
    by (simp add: threshold_of_100)
  from leaf_numeric_significance [OF t(1) t(2) c(1) c(2), of default_sig_diff_frac "''a''"]
  have 1: "result_tag (projr (Json_Dict_Compare_obj float_fragment default_sig_diff_frac ''a''
         (Some (PInt 100)) (Some (PInt 91)))) = Same"
    unfolding d th by auto
  from leaf_numeric_significance [OF t(1) t(3) c(1) c(3), of default_sig_diff_frac "''a''"]
  have 2: "result_tag (projr (Json_Dict_Compare_obj float_fragment default_sig_diff_frac ''a''
         (Some (PInt 100)) (Some (PInt 89)))) = Changed"
    unfolding d th by auto
  from t c th 1 2 show ?thesis by simp
qed

text \<open>
  Rounding decides a comparison: with the old value 3.1, the new value 2.79 and the
  default fraction, the difference and the threshold are the same double
  (\<open>0.31000000000000005\<close>), and the node is \<open>same\<close>.
\<close>

lemma leaf_rounded_boundary:
  "result_tag (projr (Json_Dict_Compare_obj fl default_sig_diff_frac ''a''
      (Some (PFloat (Fin (6980579422424269 / 2251799813685248))))
      (Some (PFloat (Fin (3141260740090921 / 1125899906842624)))))) = Same"
  by (simp add: leaf_unfold [of "Some (PFloat (Fin (6980579422424269 / 2251799813685248)))" "Some ''number''"
        "Some (PFloat (Fin (3141260740090921 / 1125899906842624)))" "Some ''number''"]
      leaf_defs rounded_operations_example del: f_sub.simps f_mul.simps)

text \<open>
  Claim C3 as stated fails for a negative fraction: with the fraction \<open>-0.10\<close>, old 100
  and new 91 the code compares 9 with \<open>abs(100 * -0.10) = 10\<close> and keeps \<open>same\<close>, while
  the threshold \<open>|old| * fraction = -10\<close> of the claim gives \<open>changed\<close>.
\<close>

theorem leaf_threshold_negative_fraction:
  "result_tag (projr (Json_Dict_Compare_obj float_fragment (f_neg default_sig_diff_frac) ''a''
         (Some (PInt 100)) (Some (PInt 91)))) = Same
   \<and> spec_leaf_category (Some ''integer'') (Some ''integer'') (Fin 100) (Fin 91)
         (f_neg default_sig_diff_frac) = Changed"
proof -
  have d: "f_sub (Fin 100) (Fin 91) = Fin 9"
    by (simp add: round_double_small)
  have 1: "result_tag (projr (Json_Dict_Compare_obj float_fragment (f_neg default_sig_diff_frac) ''a''
         (Some (PInt 100)) (Some (PInt 91)))) = Same"
    by (simp add: leaf_unfold [of "Some (PInt 100)" "Some ''integer''" "Some (PInt 91)" "Some ''integer''"]
        leaf_defs round_double_small threshold_of_100 d del: f_sub.simps f_mul.simps)
  have 2: "spec_leaf_category (Some ''integer'') (Some ''integer'') (Fin 100) (Fin 91)
         (f_neg default_sig_diff_frac) = Changed"
    by (simp add: spec_leaf_category_def threshold_of_100 d del: f_sub.simps f_mul.simps)
  from 1 2 show ?thesis by (rule conjI)
qed

subsection \<open>The type check\<close>

text \<open>
  Claim C4: when both sides are present and their types differ, the node is \<open>changed\<close>
  and the first message of its record is the type transition from the old type to the
  new one, whatever the value comparison finds afterwards. A leaf always returns, and
  its record is the only one, filed under \<open>changed\<close>. A container returns unless a
  child raises; its record is filed under \<open>changed\<close> when the tag is not empty or one
  side is an array (an object at the empty tag files no record of its own).
\<close>

theorem type_change_forces_changed:
  assumes "type_dict ov = Inr ot" "type_dict nv = Inr nt" "ot \<noteq> nt"
  shows "(container_cnt ot nt = 0 \<longrightarrow> \<not> isl (Json_Dict_Compare_obj fl sdf tag (Some ov) (Some nv)))
   \<and> (\<forall>obj. Json_Dict_Compare_obj fl sdf tag (Some ov) (Some nv) = Inr obj \<longrightarrow>
         result_tag obj = Changed
       \<and> hd (diff_msg_lt obj) = ValueType_changed ot nt
       \<and> diff (val_results obj) = diff_msg_lt obj
       \<and> key_tag (val_results obj) = tag
       \<and> (container_cnt ot nt = 0 \<longrightarrow>
            compare_dict obj = append_to Changed (val_results obj) empty_compare_dict)
       \<and> (0 < container_cnt ot nt \<and> (tag \<noteq> [] \<or> has_type ''array'' ot nt) \<longrightarrow>
            val_results obj \<in> set (changed (compare_dict obj))))"
proof -
  define vr where "vr = \<lparr>key_tag = tag, old_val = shown_val (side_val (Some ov)) ot, old_val_type = ot,
        new_val = shown_val (side_val (Some nv)) nt, new_val_type = nt, diff = [N_A]\<rparr>"
  define st0 where "st0 = (Changed, [ValueType_changed ot nt])"
  have fc: "first_checks (Some ov) (Some nv) ot nt = st0"
    using assms(3) by (simp add: first_checks_def st0_def)
  have sides: "side_type (Some ov) = Inr ot" "side_type (Some nv) = Inr nt"
    using assms by simp_all
  show ?thesis
  proof (cases "container_cnt ot nt = 0")
    case True
    have unfold: "Json_Dict_Compare_obj fl sdf tag (Some ov) (Some nv) =
        leaf_node fl sdf (Some ov) (Some nv) ot nt st0 vr"
      unfolding vr_def fc [symmetric] by (rule leaf_unfold [OF sides True])
    obtain st' where ld: "leaf_diff fl sdf (Some ov) (Some nv) ot nt st0 = Inr st'"
      and ext: "extends_state st0 st'"
      using leaf_diff_result [OF assms(1,2), where fl=fl and sdf=sdf and ot'=ot and nt'=nt and st=st0]
      by (cases "leaf_diff fl sdf (Some ov) (Some nv) ot nt st0") simp_all
    have res: "Json_Dict_Compare_obj fl sdf tag (Some ov) (Some nv) =
        Inr \<lparr>compare_dict = append_to (fst st') (vr\<lparr>diff := snd st'\<rparr>) empty_compare_dict,
             result_tag = fst st', diff_msg_lt = snd st', val_results = vr\<lparr>diff := snd st'\<rparr>\<rparr>"
      unfolding unfold leaf_node_def ld by simp
    from extends_changed [OF ext [unfolded st0_def]] True show ?thesis
      unfolding res by (simp add: vr_def)
  next
    case False
    then have pos: "0 < container_cnt ot nt" by simp
    have unfold: "Json_Dict_Compare_obj fl sdf tag (Some ov) (Some nv) =
       container_drilldown tag (Some ov) (Some nv) ot nt st0 vr
         (map (\<lambda>(k, o', n'). Json_Dict_Compare_obj fl sdf k o' n')
              (object_subcalls tag (Some ov) (Some nv) ot nt))
         (map (\<lambda>(k, o', n'). Json_Dict_Compare_obj fl sdf k o' n')
              (array_subcalls tag (Some ov) (Some nv) ot nt))"
      unfolding vr_def fc [symmetric] by (rule container_unfold [OF sides pos])
    define st1 where "st1 = object_summary (Some ov) (Some nv) ot nt st0"
    define st2 where "st2 = array_summary (Some ov) (Some nv) ot nt st1"
    have e1: "extends_state st0 st1"
      unfolding st1_def by (rule object_summary_extends)
    have e2: "extends_state st0 st2"
      unfolding st2_def by (rule extends_state_trans [OF e1 array_summary_extends])
    note c1 = extends_changed [OF e1 [unfolded st0_def]]
    note c2 = extends_changed [OF e2 [unfolded st0_def]]
    {
      fix obj assume r: "Json_Dict_Compare_obj fl sdf tag (Some ov) (Some nv) = Inr obj"
      note cd = r [unfolded unfold]
      note f = container_drilldown_fields [OF cd, folded st1_def st2_def]
      have "result_tag obj = Changed" using f(1) c2(1) by simp
      moreover have "hd (diff_msg_lt obj) = ValueType_changed ot nt" using f(2) c2(2) by simp
      moreover have "diff (val_results obj) = diff_msg_lt obj" using f(2,3) by simp
      moreover have "key_tag (val_results obj) = tag" using f(3) by (simp add: vr_def)
      moreover have "val_results obj \<in> set (changed (compare_dict obj))"
        if "tag \<noteq> [] \<or> has_type ''array'' ot nt"
      proof (rule container_drilldown_record [OF cd])
        show "fst (object_summary (Some ov) (Some nv) ot nt st0) = Changed"
          using c1(1) by (simp add: st1_def)
        show "fst (array_summary (Some ov) (Some nv) ot nt
                 (object_summary (Some ov) (Some nv) ot nt st0)) = Changed"
          using c2(1) by (simp add: st1_def st2_def)
        show "has_type ''object'' ot nt \<and> tag \<noteq> [] \<or> has_type ''array'' ot nt"
          using that pos unfolding has_type_container_cnt by blast
      qed
      ultimately have "result_tag obj = Changed
       \<and> hd (diff_msg_lt obj) = ValueType_changed ot nt
       \<and> diff (val_results obj) = diff_msg_lt obj
       \<and> key_tag (val_results obj) = tag
       \<and> (tag \<noteq> [] \<or> has_type ''array'' ot nt \<longrightarrow>
            val_results obj \<in> set (changed (compare_dict obj)))" by blast
    }
    with False show ?thesis by simp
  qed
qed

text \<open>
  The example of the specification: old \<open>"5"\<close>, new \<open>5\<close>. Both convert to the float 5,
  the difference 0 is not significant, and the node is \<open>changed\<close> all the same.
\<close>

theorem type_change_forces_changed_witness:
  "type_dict (PStr ''5'') = Inr (Some ''string'') \<and> type_dict (PInt 5) = Inr (Some ''integer'')
   \<and> Some ''string'' \<noteq> Some ''integer''
   \<and> float_builtin float_fragment (PStr ''5'') = float_builtin float_fragment (PInt 5)
   \<and> Json_Dict_Compare_obj float_fragment (Fin (1 / 10)) ''a'' (Some (PStr ''5'')) (Some (PInt 5)) =
       Inr \<lparr>compare_dict =
            \<lparr>dropped = [], new = [],
             changed = [\<lparr>key_tag = ''a'', old_val = PStr ''5'', old_val_type = Some ''string'',
                     new_val = PInt 5, new_val_type = Some ''integer'',
                     diff = [ValueType_changed (Some ''string'') (Some ''integer''),
                             Value_difference_not_significant (DFloat (Fin 0))]\<rparr>],
             same = []\<rparr>,
          result_tag = Changed,
          diff_msg_lt = [ValueType_changed (Some ''string'') (Some ''integer''),
                         Value_difference_not_significant (DFloat (Fin 0))],
          val_results = \<lparr>key_tag = ''a'', old_val = PStr ''5'', old_val_type = Some ''string'',
                     new_val = PInt 5, new_val_type = Some ''integer'',
                     diff = [ValueType_changed (Some ''string'') (Some ''integer''),
                             Value_difference_not_significant (DFloat (Fin 0))]\<rparr>\<rparr>"
proof -
  have t: "type_dict (PStr ''5'') = Inr (Some ''string'')" "type_dict (PInt 5) = Inr (Some ''integer'')"
    "Some ''string'' \<noteq> Some ''integer''" by simp_all
  have f: "float_builtin float_fragment (PStr ''5'') = Some (Fin 5)"
    "float_builtin float_fragment (PInt 5) = Some (Fin 5)"
    by (simp_all add: float_fragment_def digit_strings_def digits_value_def round_double_small)
  note main = type_change_forces_changed [OF t, of float_fragment "Fin (1 / 10)" "''a''"]
  have ev: "Json_Dict_Compare_obj float_fragment (Fin (1 / 10)) ''a'' (Some (PStr ''5'')) (Some (PInt 5)) =
       Inr \<lparr>compare_dict =
            \<lparr>dropped = [], new = [],
             changed = [\<lparr>key_tag = ''a'', old_val = PStr ''5'', old_val_type = Some ''string'',
                     new_val = PInt 5, new_val_type = Some ''integer'',
                     diff = [ValueType_changed (Some ''string'') (Some ''integer''),
                             Value_difference_not_significant (DFloat (Fin 0))]\<rparr>],
             same = []\<rparr>,
          result_tag = Changed,
          diff_msg_lt = [ValueType_changed (Some ''string'') (Some ''integer''),
                         Value_difference_not_significant (DFloat (Fin 0))],
          val_results = \<lparr>key_tag = ''a'', old_val = PStr ''5'', old_val_type = Some ''string'',
                     new_val = PInt 5, new_val_type = Some ''integer'',
                     diff = [ValueType_changed (Some ''string'') (Some ''integer''),
                             Value_difference_not_significant (DFloat (Fin 0))]\<rparr>\<rparr>"
    using f by (simp add: leaf_unfold [of "Some (PStr ''5'')" "Some ''string''" "Some (PInt 5)" "Some ''integer''"]
      leaf_defs round_double_zero round_double_small)
  from main t f ev show ?thesis by simp
qed

subsection \<open>Records per node\<close>

text \<open>
  Claim C5 at old \<open>{"a": {"x": 1}}\<close> and new \<open>{"a": [1]}\<close>: the node \<open>a\<close> is an object on
  one side and an array on the other, so both branches of \<open>container_drilldown\<close> run
  and each appends the record of \<open>a\<close>: the bucket \<open>changed\<close> holds two records with the
  tag \<open>a\<close>.
\<close>

theorem mixed_containers_two_records:
  "map key_tag (changed (compare_dict (projr (Json_Dict_Compare_obj float_fragment (Fin (1 / 10)) []
     (Some (PDict [(''a'', PDict [(''x'', PInt 1)])])) (Some (PDict [(''a'', PList [PInt 1])]))))))
     = [''a'', ''a'']"
  by code_simp

text \<open>
  The guard \<open>if self.key_tag\<close> is in the object branch only: an array at the empty tag
  (the root) files a record of its own, an object there files none.
\<close>

lemma array_root_files_record:
  "map key_tag (same (compare_dict (projr (Json_Dict_Compare_obj float_fragment (Fin (1 / 10)) []
     (Some (PList [PInt 1])) (Some (PList [PInt 1])))))) = [[], ''array elem 0'']"
  by code_simp

subsection \<open>Both sides absent\<close>

text \<open>
  Claim C6, as the code has it: a call with both sides absent raises nothing. The
  absence check takes its first branch (\<open>old_keyval is False\<close>), so the node is filed
  under \<open>new\<close> with the message \<open>Key_tag not in original input file\<close>, both values
  and both types shown as \<open>'-'\<close>, and the constructor returns.
\<close>

theorem both_absent_gives_new_record:
  "Json_Dict_Compare_obj fl sdf tag None None =
     Inr \<lparr>compare_dict =
            \<lparr>dropped = [],
             new = [\<lparr>key_tag = tag, old_val = PStr ''-'', old_val_type = Some ''-'',
                     new_val = PStr ''-'', new_val_type = Some ''-'',
                     diff = [Key_tag_not_in_original]\<rparr>],
             changed = [], same = []\<rparr>,
          result_tag = New, diff_msg_lt = [Key_tag_not_in_original],
          val_results = \<lparr>key_tag = tag, old_val = PStr ''-'', old_val_type = Some ''-'',
                     new_val = PStr ''-'', new_val_type = Some ''-'',
                     diff = [Key_tag_not_in_original]\<rparr>\<rparr>"
  by (simp add: leaf_unfold [of None "Some ''-''" None "Some ''-''"] leaf_defs)

text \<open>
  Claim C6 as stated fails: with the default arguments (empty tag, both sides \<open>False\<close>,
  fraction 0.10) the constructor returns an object, and its \<open>new\<close> bucket holds a record.
\<close>

theorem both_absent_not_rejected:
  "isl (Json_Dict_Compare_obj float_fragment (Fin (1 / 10)) [] None None) = False
   \<and> length (new (compare_dict (projr
        (Json_Dict_Compare_obj float_fragment (Fin (1 / 10)) [] None None)))) = 1"
  by (simp add: leaf_unfold [of None "Some ''-''" None "Some ''-''"] leaf_defs)

subsection \<open>Booleans\<close>

text \<open>
  Claim C10: two booleans on a present leaf are never compared. \<open>test_string_to_float\<close>
  gives \<open>False\<close> for a boolean and the types are not both \<open>'string'\<close>, so
  \<open>test_value_diff\<close> reports that it could not compare; the node gets the message
  \<open>Cannot compare values\<close> and stays in \<open>same\<close>, whether the two booleans are equal
  or not.
\<close>

theorem booleans_cannot_compare:
  "Json_Dict_Compare_obj fl sdf tag (Some (PBool a)) (Some (PBool b)) =
     Inr \<lparr>compare_dict =
            \<lparr>dropped = [], new = [], changed = [],
             same = [\<lparr>key_tag = tag, old_val = PBool a, old_val_type = Some ''boolean'',
                     new_val = PBool b, new_val_type = Some ''boolean'',
                     diff = [ValueType_unchanged (Some ''boolean''), Cannot_compare_values]\<rparr>]\<rparr>,
          result_tag = Same,
          diff_msg_lt = [ValueType_unchanged (Some ''boolean''), Cannot_compare_values],
          val_results = \<lparr>key_tag = tag, old_val = PBool a, old_val_type = Some ''boolean'',
                     new_val = PBool b, new_val_type = Some ''boolean'',
                     diff = [ValueType_unchanged (Some ''boolean''), Cannot_compare_values]\<rparr>\<rparr>"
  by (simp add: leaf_unfold [of "Some (PBool a)" "Some ''boolean''" "Some (PBool b)" "Some ''boolean''"]
      leaf_defs)

section \<open>Properties of the addresser\<close>

lemma drilldown_sound: "av \<in> set (drilldown prefix v) \<Longrightarrow> emits prefix v av"
proof (induction prefix v arbitrary: av rule: drilldown.induct)
  case (1 key_address xs)
  from "1.prems" obtain cnt sub where
    mem: "(cnt, sub) \<in> set (enumerate_py xs)"
    and av: "av \<in> set (drilldown (key_address @ [KInt (int cnt)]) sub)"
    by auto
  from mem have cnt: "cnt < length xs" and sub: "sub = xs ! cnt"
    unfolding enumerate_py_def by (auto simp: in_set_zip)
  from "1.IH" [OF mem refl av] have "emits (key_address @ [KInt (int cnt)]) (xs ! cnt) av"
    by (simp add: sub)
  with cnt show ?case by (rule emits_array)
next
  case (2 key_address d)
  from "2.prems" obtain key sub where
    mem: "(key, sub) \<in> set d"
    and av: "av \<in> set (drilldown (key_address @ [KStr key]) sub)"
    by auto
  from "2.IH" [OF mem refl av] have "emits (key_address @ [KStr key]) sub av" .
  with mem show ?case by (rule emits_object)
qed (simp_all add: emits_scalar)

lemma drilldown_complete: "emits prefix v av \<Longrightarrow> av \<in> set (drilldown prefix v)"
proof (induction rule: emits.induct)
  case (emits_scalar v prefix)
  then show ?case by (cases v) simp_all
next
  case (emits_object k sub d prefix av)
  then show ?case by force
next
  case (emits_array i xs prefix av)
  from emits_array.hyps(1) have "(i, xs ! i) \<in> set (enumerate_py xs)"
    unfolding enumerate_py_def in_set_zip by (intro exI [of _ i]) simp
  with emits_array.IH show ?case by force
qed

lemma drilldown_emits: "set (drilldown prefix v) = {av. emits prefix v av}"
  using drilldown_sound drilldown_complete by blast

lemma emits_root_object:
  "(\<exists>k v. (k, v) \<in> set d \<and> emits [KStr k] v av) \<longleftrightarrow> emits [] (JDict d) av"
proof
  assume "\<exists>k v. (k, v) \<in> set d \<and> emits [KStr k] v av"
  then obtain k v where "(k, v) \<in> set d" "emits ([] @ [KStr k]) v av" by auto
  then show "emits [] (JDict d) av" by (rule emits_object)
next
  assume "emits [] (JDict d) av"
  then show "\<exists>k v. (k, v) \<in> set d \<and> emits [KStr k] v av"
    by (cases rule: emits.cases) auto
qed

lemma address_json_object:
  assumes "load p = Inr (JDict d)"
  shows "\<exists>avs. address_json load p = Inr avs \<and> set avs = {av. emits [] (JDict d) av}"
proof -
  have "set (concat (map (\<lambda>(k, v). value_drilldown (Single (KStr k)) v) d)) =
      {av. \<exists>k v. (k, v) \<in> set d \<and> emits [KStr k] v av}"
    by (auto simp: value_drilldown_def drilldown_emits)
  then show ?thesis
    using assms by (simp add: address_json_def emits_root_object)
qed

lemma address_json_other_root:
  assumes "load p = Inr j" "\<forall>d. j \<noteq> JDict d"
  shows "address_json load p = Inl AttributeError"
  using assms by (cases j) (simp_all add: address_json_def)

text \<open>
  Claim C7, as the code has it. \<open>value_drilldown\<close>, started at a key or an address
  prefix, yields exactly the pairs of the traversal rule, for a value of any kind; an
  empty object and an empty array yield nothing. \<open>address_json\<close> starts it once per
  entry of the root, so for a root that is an object it yields exactly the pairs of the
  rule from the empty prefix. For a root that is an array or a scalar it raises
  \<open>AttributeError\<close> at \<open>j_dict.items()\<close> and yields nothing.
\<close>

theorem addresser_traversal:
  "set (value_drilldown key_address v) = {av. emits (as_list key_address) v av}
   \<and> drilldown prefix (JDict []) = [] \<and> drilldown prefix (JList []) = []
   \<and> (\<forall>d. load p = Inr (JDict d) \<longrightarrow>
        (\<exists>avs. address_json load p = Inr avs \<and> set avs = {av. emits [] (JDict d) av}))
   \<and> (\<forall>j. load p = Inr j \<and> (\<forall>d. j \<noteq> JDict d) \<longrightarrow> address_json load p = Inl AttributeError)"
  using address_json_object [of load p] address_json_other_root [of load p]
  by (simp add: value_drilldown_def drilldown_emits enumerate_py_def)

text \<open>The two example files: an object at the root, and an array at the root.\<close>

theorem addresser_traversal_witness:
  "example_files ''object.json'' = Inr (JDict [(''a'', JInt 1), (''b'', JList [JStr ''x'', JDict []])])
   \<and> (\<exists>avs. address_json example_files ''object.json'' = Inr avs
         \<and> set avs = {av. emits [] (JDict [(''a'', JInt 1), (''b'', JList [JStr ''x'', JDict []])]) av})
   \<and> address_json example_files ''object.json'' =
         Inr [([KStr ''a''], JInt 1), ([KStr ''b'', KInt 0], JStr ''x'')]
   \<and> example_files ''array.json'' = Inr (JList [JInt 1])
   \<and> (\<forall>d. JList [JInt 1] \<noteq> JDict d)
   \<and> address_json example_files ''array.json'' = Inl AttributeError"
proof -
  have f: "example_files ''object.json'' = Inr (JDict [(''a'', JInt 1), (''b'', JList [JStr ''x'', JDict []])])"
    "example_files ''array.json'' = Inr (JList [JInt 1])"
    by (simp_all add: example_files_def)
  have n: "\<forall>d. JList [JInt 1] \<noteq> JDict d" by simp
  have ev: "address_json example_files ''object.json'' =
         Inr [([KStr ''a''], JInt 1), ([KStr ''b'', KInt 0], JStr ''x'')]"
    by (simp add: address_json_def f value_drilldown_def enumerate_py_def)
  from addresser_traversal [of "Single (KStr ''a'')" JNone "[]" example_files "''object.json''"] f(1)
  have 1: "\<exists>avs. address_json example_files ''object.json'' = Inr avs
         \<and> set avs = {av. emits [] (JDict [(''a'', JInt 1), (''b'', JList [JStr ''x'', JDict []])]) av}"
    by blast
  from addresser_traversal [of "Single (KStr ''a'')" JNone "[]" example_files "''array.json''"] f(2) n
  have 2: "address_json example_files ''array.json'' = Inl AttributeError"
    by blast
  from f n ev 1 2 show ?thesis by blast
qed

text \<open>
  Claim C7 as stated fails for a root that is an array: the rule emits the pair of
  index 0 for the tree \<open>[1]\<close>, and \<open>address_json\<close> raises instead.
\<close>

theorem address_json_rejects_array_root:
  "address_json example_files ''array.json'' = Inl AttributeError
   \<and> emits [] (JList [JInt 1]) ([KInt 0], JInt 1)"
proof -
  have "emits ([] @ [KInt (int 0)]) ([JInt 1] ! 0) ([KInt 0], JInt 1)"
    by (simp add: emits_scalar)
  then have "emits [] (JList [JInt 1]) ([KInt 0], JInt 1)"
    by (rule emits_array [rotated]) simp
  then show ?thesis by (simp add: address_json_def example_files_def)
qed

section \<open>Properties of the set operations\<close>

lemma foldl_union: "foldl (\<union>) A ss = A \<union> \<Union> (set ss)"
  by (induction ss arbitrary: A) auto

lemma foldl_inter: "foldl (\<inter>) A ss = A \<inter> \<Inter> (set ss)"
  by (induction ss arbitrary: A) auto

lemma foldl_diff: "foldl (-) A ss = A - \<Union> (set ss)"
  by (induction ss arbitrary: A) auto

lemma logic_result:
  assumes "get_addressedvalue_sets load h dataset = Inr ss"
  shows "addressedvalueset_logic load h self dataset set_operation =
     Inr (\<lparr>objs = (objs h)(next_ref h := set_operation_result set_operation (objs h self) ss),
           next_ref = Suc (next_ref h)\<rparr>, next_ref h)"
  using assms by (simp add: addressedvalueset_logic_def new_object_def Let_def)

lemma logic_error:
  assumes "get_addressedvalue_sets load h dataset = Inl e"
  shows "addressedvalueset_logic load h self dataset set_operation = Inl e"
  using assms by (simp add: addressedvalueset_logic_def)

text \<open>
  The sources of the examples: the file with an object at the root, which holds the
  integer 1 at the address \<open>a\<close>, and a set that holds the float \<open>1.0\<close> at the address
  \<open>a\<close> and \<open>None\<close> at the address \<open>d\<close>. The receiver holds \<open>True\<close> at the address \<open>a\<close>:
  the three are one element.
\<close>

lemma example_sources:
  "get_addressedvalue_sets example_files example_heap
      [InPath ''object.json'', InSet {([KStr ''a''], VNum 1), ([KStr ''d''], VNone)}] =
     Inr [{([KStr ''a''], VNum 1), ([KStr ''b'', KInt 0], VStr ''x'')}, {([KStr ''a''], VNum 1), ([KStr ''d''], VNone)}]"
  by (simp add: address_json_def example_files_def value_drilldown_def enumerate_py_def set_py_def
      insert_commute)

lemma equal_values_one_element:
  "class_of (JBool True) = class_of (JInt 1)" "class_of (JInt 1) = class_of (JFloat (Fin 1))"
  "class_of (JBool False) = class_of (JInt 0)" "class_of (JInt 1) \<noteq> class_of (JStr ''1'')"
  by simp_all

text \<open>\<open>union\<close>, \<open>intersection\<close> and \<open>difference\<close> compute the set operations of their names.\<close>

lemma set_operations_compute:
  assumes "get_addressedvalue_sets load h args = Inr ss"
  shows "objs (fst (projr (union_avs load h self args))) (snd (projr (union_avs load h self args)))
           = objs h self \<union> \<Union> (set ss)"
    and "objs (fst (projr (intersection_avs load h self args)))
           (snd (projr (intersection_avs load h self args))) = objs h self \<inter> \<Inter> (set ss)"
    and "objs (fst (projr (difference_avs load h self args)))
           (snd (projr (difference_avs load h self args))) = objs h self - \<Union> (set ss)"
  unfolding union_avs_def intersection_avs_def difference_avs_def logic_result [OF assms]
  by (simp_all add: set_operation_result_def foldl_union foldl_inter foldl_diff)

text \<open>
  Claim C8: when every source is one that \<open>get_addressedvalue_sets\<close> accepts,
  \<open>symmetric_difference\<close> returns a new object whose set is the set of the object that
  \<open>union\<close> returns minus the set of the object that \<open>intersection\<close> returns, which is
  the union of the receiver's set with all sources minus their common intersection.
  The sets are sets of elements up to the equality of Python, under which the value
  \<open>True\<close> of the receiver and the value \<open>1\<close> of a source at the same address are one
  element.
\<close>

theorem symmetric_difference_union_minus_intersection:
  assumes "get_addressedvalue_sets load h args = Inr ss"
  shows "\<exists>h' r hu ru hi ri.
       symmetric_difference load h self args = Inr (h', r)
     \<and> union_avs load h self args = Inr (hu, ru)
     \<and> intersection_avs load h self args = Inr (hi, ri)
     \<and> objs h' r = objs hu ru - objs hi ri
     \<and> objs h' r = (objs h self \<union> \<Union> (set ss)) - (objs h self \<inter> \<Inter> (set ss))"
  unfolding symmetric_difference_def union_avs_def intersection_avs_def logic_result [OF assms]
  by (simp add: set_operation_result_def foldl_union foldl_inter)

text \<open>
  The receiver \<open>{(a, True), (c, True)}\<close> with the sources \<open>object.json\<close>, which gives
  \<open>{(a, 1), ((b, 0), 'x')}\<close>, and the set \<open>{(a, 1.0), (d, None)}\<close>: the element at \<open>a\<close> is in
  all three, so the common intersection is that element, and the symmetric difference
  is the union of four elements without it.
\<close>

theorem symmetric_difference_union_minus_intersection_witness:
  "get_addressedvalue_sets example_files example_heap
      [InPath ''object.json'', InSet {([KStr ''a''], VNum 1), ([KStr ''d''], VNone)}] =
     Inr [{([KStr ''a''], VNum 1), ([KStr ''b'', KInt 0], VStr ''x'')}, {([KStr ''a''], VNum 1), ([KStr ''d''], VNone)}]
   \<and> (\<exists>h' r hu ru hi ri.
       symmetric_difference example_files example_heap 0
          [InPath ''object.json'', InSet {([KStr ''a''], VNum 1), ([KStr ''d''], VNone)}] = Inr (h', r)
     \<and> union_avs example_files example_heap 0
          [InPath ''object.json'', InSet {([KStr ''a''], VNum 1), ([KStr ''d''], VNone)}] = Inr (hu, ru)
     \<and> intersection_avs example_files example_heap 0
          [InPath ''object.json'', InSet {([KStr ''a''], VNum 1), ([KStr ''d''], VNone)}] = Inr (hi, ri)
     \<and> objs h' r = objs hu ru - objs hi ri
     \<and> objs h' r = (objs example_heap 0 \<union>
            \<Union> (set [{([KStr ''a''], VNum 1), ([KStr ''b'', KInt 0], VStr ''x'')}, {([KStr ''a''], VNum 1), ([KStr ''d''], VNone)}]))
          - (objs example_heap 0 \<inter>
            \<Inter> (set [{([KStr ''a''], VNum 1), ([KStr ''b'', KInt 0], VStr ''x'')}, {([KStr ''a''], VNum 1), ([KStr ''d''], VNone)}]))
     \<and> objs hu ru = {([KStr ''a''], VNum 1), ([KStr ''c''], VNum 1), ([KStr ''b'', KInt 0], VStr ''x''),
                     ([KStr ''d''], VNone)}
     \<and> objs hi ri = {([KStr ''a''], VNum 1)}
     \<and> objs h' r = {([KStr ''c''], VNum 1), ([KStr ''b'', KInt 0], VStr ''x''), ([KStr ''d''], VNone)})"
proof -
  from symmetric_difference_union_minus_intersection [OF example_sources, of 0]
  obtain h' r hu ru hi ri where
    s: "symmetric_difference example_files example_heap 0
          [InPath ''object.json'', InSet {([KStr ''a''], VNum 1), ([KStr ''d''], VNone)}] = Inr (h', r)"
    and u: "union_avs example_files example_heap 0
          [InPath ''object.json'', InSet {([KStr ''a''], VNum 1), ([KStr ''d''], VNone)}] = Inr (hu, ru)"
    and i: "intersection_avs example_files example_heap 0
          [InPath ''object.json'', InSet {([KStr ''a''], VNum 1), ([KStr ''d''], VNone)}] = Inr (hi, ri)"
    and d: "objs h' r = objs hu ru - objs hi ri"
    and f: "objs h' r = (objs example_heap 0 \<union>
            \<Union> (set [{([KStr ''a''], VNum 1), ([KStr ''b'', KInt 0], VStr ''x'')}, {([KStr ''a''], VNum 1), ([KStr ''d''], VNone)}]))
          - (objs example_heap 0 \<inter>
            \<Inter> (set [{([KStr ''a''], VNum 1), ([KStr ''b'', KInt 0], VStr ''x'')}, {([KStr ''a''], VNum 1), ([KStr ''d''], VNone)}]))"
    by blast
  from set_operations_compute(1) [OF example_sources, of 0] u
  have uv: "objs hu ru = {([KStr ''a''], VNum 1), ([KStr ''c''], VNum 1), ([KStr ''b'', KInt 0], VStr ''x''),
                     ([KStr ''d''], VNone)}"
    by (auto simp: example_heap_def)
  from set_operations_compute(2) [OF example_sources, of 0] i
  have iv: "objs hi ri = {([KStr ''a''], VNum 1)}"
    by (auto simp: example_heap_def)
  have sv: "objs h' r = {([KStr ''c''], VNum 1), ([KStr ''b'', KInt 0], VStr ''x''), ([KStr ''d''], VNone)}"
    unfolding d uv iv by auto
  from example_sources s u i d f uv iv sv show ?thesis by blast
qed

text \<open>
  Claim C9: each of \<open>union\<close>, \<open>intersection\<close>, \<open>difference\<close> and
  \<open>symmetric_difference\<close> returns whenever the sources are accepted, and what it returns
  is a reference that did not exist before the call, different from the receiver. The
  set of the receiver, and that of every object that existed before, is what it was;
  the only attribute written is that of the new object.
\<close>

theorem set_operations_frame:
  assumes "self < next_ref h"
    and "f = union_avs \<or> f = intersection_avs \<or> f = difference_avs \<or> f = symmetric_difference"
  shows "(\<forall>ss. get_addressedvalue_sets load h args = Inr ss \<longrightarrow> \<not> isl (f load h self args))
   \<and> (\<forall>h' r. f load h self args = Inr (h', r) \<longrightarrow>
         r = next_ref h \<and> r \<noteq> self \<and> objs h' self = objs h self
       \<and> (\<forall>x. x < next_ref h \<longrightarrow> objs h' x = objs h x)
       \<and> next_ref h' = Suc (next_ref h))"
proof -
  from assms(2) obtain set_operation where
    f: "f load h self args = addressedvalueset_logic load h self args set_operation"
    unfolding union_avs_def [abs_def] intersection_avs_def [abs_def] difference_avs_def [abs_def]
      symmetric_difference_def [abs_def]
    by blast
  show ?thesis
  proof (cases "get_addressedvalue_sets load h args")
    case (Inl e)
    then show ?thesis unfolding f logic_error [OF Inl] by simp
  next
    case (Inr ss)
    then show ?thesis unfolding f logic_result [OF Inr] using assms(1) by simp
  qed
qed

theorem set_operations_frame_witness:
  "(0::nat) < next_ref example_heap
   \<and> get_addressedvalue_sets example_files example_heap
      [InPath ''object.json'', InSet {([KStr ''a''], VNum 1), ([KStr ''d''], VNone)}] =
     Inr [{([KStr ''a''], VNum 1), ([KStr ''b'', KInt 0], VStr ''x'')}, {([KStr ''a''], VNum 1), ([KStr ''d''], VNone)}]
   \<and> difference_avs example_files example_heap 0
        [InPath ''object.json'', InSet {([KStr ''a''], VNum 1), ([KStr ''d''], VNone)}] =
       Inr (\<lparr>objs = (objs example_heap)(1 := {([KStr ''c''], VNum 1)}), next_ref = 2\<rparr>, 1)
   \<and> objs (fst (projr (difference_avs example_files example_heap 0
        [InPath ''object.json'', InSet {([KStr ''a''], VNum 1), ([KStr ''d''], VNone)}]))) 0 = objs example_heap 0"
proof -
  have h: "(0::nat) < next_ref example_heap" by (simp add: example_heap_def)
  have ev: "difference_avs example_files example_heap 0
        [InPath ''object.json'', InSet {([KStr ''a''], VNum 1), ([KStr ''d''], VNone)}] =
       Inr (\<lparr>objs = (objs example_heap)(1 := {([KStr ''c''], VNum 1)}), next_ref = 2\<rparr>, 1)"
    unfolding difference_avs_def logic_result [OF example_sources]
    by (auto simp: set_operation_result_def example_heap_def)
  from set_operations_frame [OF h, of difference_avs example_files
      "[InPath ''object.json'', InSet {([KStr ''a''], VNum 1), ([KStr ''d''], VNone)}]"] ev
  have "objs (fst (projr (difference_avs example_files example_heap 0
        [InPath ''object.json'', InSet {([KStr ''a''], VNum 1), ([KStr ''d''], VNone)}]))) 0 = objs example_heap 0"
    by simp
  with h ev example_sources show ?thesis by blast
qed

text \<open>
  The constructor writes the attribute of the object it creates, and of no object that
  existed before.
\<close>

lemma constructor_frame:
  assumes "AddressedValueSet_init load h args = Inr (h', r)"
  shows "r = next_ref h \<and> (\<forall>x. x < next_ref h \<longrightarrow> objs h' x = objs h x)"
proof (cases "args = []")
  case True
  with assms show ?thesis by (auto simp: AddressedValueSet_init_def new_object_def)
next
  case False
  define h1 where "h1 = fst (new_object h)"
  have h1: "new_object h = (h1, next_ref h)" "next_ref h1 = Suc (next_ref h)"
    "\<And>x. x < next_ref h \<Longrightarrow> objs h1 x = objs h x"
    by (simp_all add: h1_def new_object_def)
  show ?thesis
  proof (cases "get_addressedvalue_sets load h1 args")
    case (Inl e)
    with assms False h1(1) show ?thesis
      by (simp add: AddressedValueSet_init_def logic_error [OF Inl])
  next
    case (Inr ss)
    with assms False h1 show ?thesis
      by (auto simp: AddressedValueSet_init_def logic_result [OF Inr])
  qed
qed

end
